theory Spec2Isabelle
  imports Complex_Main
begin

section \<open>Data model of \<^verbatim>\<open>FindGoofyGame.tsx\<close>\<close>

text \<open>
  The component keeps a \<^verbatim>\<open>GameState\<close> object, the list of placed characters, the
  high score read from the browser's key-value store, and a reference to the handle of
  the one-second interval. JavaScript numbers that only ever hold integers here (score,
  seconds, level) are \<open>int\<close>; the positions, which are products of \<^verbatim>\<open>Math.random()\<close>,
  are \<open>real\<close> and no property below depends on them. The field \<^verbatim>\<open>id\<close> is called
  \<open>cid\<close>, and \<^verbatim>\<open>x\<close>, \<^verbatim>\<open>y\<close> are \<open>posx\<close>, \<open>posy\<close>, since a record field
  becomes a constant of that name.
\<close>

datatype Difficulty = Easy | Medium | Hard

record Character =
  cid :: string
  posx :: real
  posy :: real
  isGoofy :: bool
  isFound :: bool
  emoji :: string

record GameState =
  score :: int
  timeLeft :: int
  gameStarted :: bool
  gameOver :: bool
  difficulty :: Difficulty
  level :: int

record config =
  totalCharacters :: int
  goofyCount :: int

definition GAME_DURATION :: int where
  "GAME_DURATION = 60"

fun DIFFICULTIES :: "Difficulty \<Rightarrow> config" where
  "DIFFICULTIES Easy = \<lparr>totalCharacters = 20, goofyCount = 3\<rparr>"
| "DIFFICULTIES Medium = \<lparr>totalCharacters = 40, goofyCount = 5\<rparr>"
| "DIFFICULTIES Hard = \<lparr>totalCharacters = 60, goofyCount = 7\<rparr>"

text \<open>The glyphs are written by their code points; they are only displayed.\<close>

definition CHARACTER_EMOJIS :: "string list" where
  "CHARACTER_EMOJIS =
     [''U+1F464'', ''U+1F9D1'', ''U+1F469'', ''U+1F468'', ''U+1F9D3'',
      ''U+1F471'', ''U+1F474'', ''U+1F475'', ''U+1F9D1 U+200D U+1F9B2'',
      ''U+1F468 U+200D U+1F9B1'']"

definition GOOFY_EMOJI :: string where
  "GOOFY_EMOJI = ''U+1F92A''"

subsection \<open>Numbers as strings\<close>

text \<open>
  A template literal such as \<^verbatim>\<open>`goofy-${i}`\<close> and \<^verbatim>\<open>newScore.toString()\<close> write an
  integer in decimal, with a leading minus sign when it is negative.
\<close>

fun decimal :: "nat \<Rightarrow> string" where
  "decimal n =
     (if n < 10 then [''0123456789'' ! n]
      else decimal (n div 10) @ [''0123456789'' ! (n mod 10)])"

declare decimal.simps [simp del]

definition toString :: "int \<Rightarrow> string" where
  "toString i = (if i < 0 then CHR ''-'' # decimal (nat (- i)) else decimal (nat i))"

section \<open>The round generator\<close>

text \<open>
  \<^verbatim>\<open>generateCharacters(difficulty, level)\<close> draws from \<^verbatim>\<open>Math.random()\<close>; the
  model takes the sequence of draws as the parameter \<open>rnd\<close>, the \<open>k\<close>-th call
  returning \<open>rnd k\<close>. A target takes two draws (x, y), every other character three
  (x, y, glyph). Reading the palette outside its ten entries gives \<^verbatim>\<open>undefined\<close> in
  JavaScript, which no draw in \<open>[0, 1)\<close> can cause.
\<close>

definition pickEmoji :: "real \<Rightarrow> string" where
  "pickEmoji r =
     (let i = \<lfloor>r * real (length CHARACTER_EMOJIS)\<rfloor>
      in if 0 \<le> i \<and> i < int (length CHARACTER_EMOJIS)
         then CHARACTER_EMOJIS ! nat i else ''undefined'')"

definition goofyCharacter :: "(nat \<Rightarrow> real) \<Rightarrow> nat \<Rightarrow> Character" where
  "goofyCharacter rnd i =
     \<lparr>cid = ''goofy-'' @ decimal i,
      posx = rnd (2 * i) * 85 + 5,
      posy = rnd (2 * i + 1) * 75 + 15,
      isGoofy = True,
      isFound = False,
      emoji = GOOFY_EMOJI\<rparr>"

definition regularCharacter :: "(nat \<Rightarrow> real) \<Rightarrow> nat \<Rightarrow> nat \<Rightarrow> Character" where
  "regularCharacter rnd used i =
     \<lparr>cid = ''char-'' @ decimal i,
      posx = rnd (used + 3 * i) * 85 + 5,
      posy = rnd (used + 3 * i + 1) * 75 + 15,
      isGoofy = False,
      isFound = False,
      emoji = pickEmoji (rnd (used + 3 * i + 2))\<rparr>"

definition totalFor :: "Difficulty \<Rightarrow> int \<Rightarrow> int" where
  "totalFor d lv = min (totalCharacters (DIFFICULTIES d) + (lv - 1) * 5) 80"

definition goofysFor :: "Difficulty \<Rightarrow> int \<Rightarrow> int" where
  "goofysFor d lv = min (goofyCount (DIFFICULTIES d) + (lv - 1) div 2) 12"

definition generateCharacters :: "Difficulty \<Rightarrow> int \<Rightarrow> (nat \<Rightarrow> real) \<Rightarrow> Character list" where
  "generateCharacters d lv rnd =
     (let total = totalFor d lv;
          goofys = goofysFor d lv
      in map (goofyCharacter rnd) [0..<nat goofys]
         @ map (regularCharacter rnd (2 * nat goofys)) [0..<nat (total - goofys)])"

section \<open>The persisted high score\<close>

text \<open>
  A JavaScript number as \<^verbatim>\<open>parseInt\<close> can return it: \<^verbatim>\<open>NaN\<close>, an integer that a
  double holds exactly, or an infinity. \<^verbatim>\<open>parseInt\<close> without a radix skips leading
  white space, reads an optional sign, switches to radix 16 after a prefix \<^verbatim>\<open>0x\<close> or
  \<^verbatim>\<open>0X\<close>, and converts the longest prefix of digits; when that prefix is empty the
  result is \<^verbatim>\<open>NaN\<close>, otherwise the double nearest to the integer read (ties to the
  even significand, and infinity from \<open>2^1024\<close> on; an engine may also replace the
  decimal digits after the twentieth by zeros before it rounds, which the model does not
  do). A \<open>string\<close> is a list of 8-bit characters, read as the code points up to 255: of
  JavaScript's white space it can hold the ASCII characters and the no-break space.
\<close>

datatype number = NaN | Num int | PosInfinity | NegInfinity

definition isWhiteSpace :: "char \<Rightarrow> bool" where
  "isWhiteSpace c \<longleftrightarrow>
     c \<in> set [CHR '' '', CHR 0x09, CHR 0x0A, CHR 0x0B, CHR 0x0C, CHR 0x0D, CHR 0xA0]"

definition digitValue :: "char \<Rightarrow> nat option" where
  "digitValue c =
     (let n = (of_char c :: nat)
      in if 48 \<le> n \<and> n \<le> 57 then Some (n - 48)
         else if 97 \<le> n \<and> n \<le> 122 then Some (n - 87)
         else if 65 \<le> n \<and> n \<le> 90 then Some (n - 55)
         else None)"

definition isDigitIn :: "nat \<Rightarrow> char \<Rightarrow> bool" where
  "isDigitIn radix c = (case digitValue c of None \<Rightarrow> False | Some v \<Rightarrow> v < radix)"

definition digitsValue :: "nat \<Rightarrow> string \<Rightarrow> int" where
  "digitsValue radix ds =
     foldl (\<lambda>acc c. acc * int radix + int (case digitValue c of None \<Rightarrow> 0 | Some v \<Rightarrow> v)) 0 ds"

text \<open>The number of binary digits of a positive integer.\<close>

function bitLength :: "int \<Rightarrow> nat" where
  "bitLength n = (if n \<le> 0 then 0 else Suc (bitLength (n div 2)))"
  by pat_completeness auto
termination
  by (relation "measure nat") auto

declare bitLength.simps [simp del]

text \<open>
  The double nearest to \<open>sign * m\<close> for \<open>m \<ge> 0\<close>: up to 53 binary digits are kept
  as they are, a longer number is rounded to 53 digits, ties to even.
\<close>

definition toDouble :: "int \<Rightarrow> int \<Rightarrow> number" where
  "toDouble sign m =
     (if bitLength m \<le> 53 then Num (sign * m)
      else (let e = bitLength m - 53;
                q = m div 2 ^ e;
                r = m mod 2 ^ e;
                half = 2 ^ (e - 1);
                q' = (if half < r \<or> (r = half \<and> odd q) then q + 1 else q);
                v = q' * 2 ^ e
            in if 2 ^ 1024 \<le> v then (if sign < 0 then NegInfinity else PosInfinity)
               else Num (sign * v)))"

definition parseDigits :: "int \<Rightarrow> nat \<Rightarrow> string \<Rightarrow> number" where
  "parseDigits sign radix str =
     (let z = takeWhile (isDigitIn radix) str
      in if z = [] then NaN else toDouble sign (digitsValue radix z))"

definition parseUnsigned :: "int \<Rightarrow> string \<Rightarrow> number" where
  "parseUnsigned sign str =
     (if take 2 str = ''0x'' \<or> take 2 str = ''0X''
      then parseDigits sign 16 (drop 2 str)
      else parseDigits sign 10 str)"

definition parseInt :: "string \<Rightarrow> number" where
  "parseInt str =
     (case dropWhile isWhiteSpace str of
        [] \<Rightarrow> NaN
      | c # rest \<Rightarrow>
          if c = CHR ''-'' then parseUnsigned (- 1) rest
          else if c = CHR ''+'' then parseUnsigned 1 rest
          else parseUnsigned 1 (c # rest))"

text \<open>\<^verbatim>\<open>localStorage.getItem(key) || '0'\<close>: an absent key and the empty string are falsy.\<close>

definition orZero :: "string option \<Rightarrow> string" where
  "orZero v = (case v of None \<Rightarrow> ''0'' | Some str \<Rightarrow> if str = [] then ''0'' else str)"

text \<open>\<^verbatim>\<open>newScore > highScore\<close>: every comparison with \<^verbatim>\<open>NaN\<close> is false.\<close>

fun exceeds :: "int \<Rightarrow> number \<Rightarrow> bool" where
  "exceeds n NaN = False"
| "exceeds n (Num m) = (m < n)"
| "exceeds n PosInfinity = False"
| "exceeds n NegInfinity = True"

section \<open>The component and its interval timer\<close>

text \<open>
  Besides the React state (\<open>gameState\<close>, \<open>characters\<close>, \<open>scopeVisible\<close>,
  \<open>highScore\<close>) and the ref \<open>timerRef\<close>, the record holds the part of the browser the
  component acts on: the handles of the intervals that are live (\<open>intervals\<close>), the
  next handle \<^verbatim>\<open>setInterval\<close> hands out, and the string stored under the key
  \<^verbatim>\<open>findGoofyHighScore\<close>. The pointer position and the toasts are display only and
  are left out.
\<close>

record component =
  gameState :: GameState
  characters :: "Character list"
  scopeVisible :: bool
  highScore :: number
  timerRef :: "nat option"
  intervals :: "nat list"
  nextHandle :: nat
  localStorage :: "string option"

definition mount :: "string option \<Rightarrow> component" where
  "mount stored =
     \<lparr>gameState = \<lparr>score = 0, timeLeft = GAME_DURATION, gameStarted = False,
                    gameOver = False, difficulty = Medium, level = 1\<rparr>,
      characters = [],
      scopeVisible = False,
      highScore = parseInt (orZero stored),
      timerRef = None,
      intervals = [],
      nextHandle = 1,
      localStorage = stored\<rparr>"

text \<open>\<^verbatim>\<open>clearInterval(timerRef.current)\<close>; clearing \<^verbatim>\<open>undefined\<close> does nothing.\<close>

definition clearInterval :: "nat option \<Rightarrow> nat list \<Rightarrow> nat list" where
  "clearInterval h live = (case h of None \<Rightarrow> live | Some k \<Rightarrow> removeAll k live)"

text \<open>\<^verbatim>\<open>timerRef.current = setInterval(..., 1000)\<close>\<close>

definition setInterval :: "component \<Rightarrow> component" where
  "setInterval s =
     s\<lparr>timerRef := Some (nextHandle s),
       intervals := nextHandle s # intervals s,
       nextHandle := Suc (nextHandle s)\<rparr>"

text \<open>The callback of the interval, the same for every interval installed.\<close>

definition intervalTick :: "component \<Rightarrow> component" where
  "intervalTick s =
     (let prev = gameState s
      in if timeLeft prev \<le> 1
         then s\<lparr>intervals := clearInterval (timerRef s) (intervals s),
                gameState := prev\<lparr>timeLeft := 0, gameOver := True\<rparr>\<rparr>
         else s\<lparr>gameState := prev\<lparr>timeLeft := timeLeft prev - 1\<rparr>\<rparr>)"

definition startGame :: "(nat \<Rightarrow> real) \<Rightarrow> component \<Rightarrow> component" where
  "startGame rnd s =
     (let newCharacters =
            generateCharacters (difficulty (gameState s)) (level (gameState s)) rnd
      in setInterval
           (s\<lparr>characters := newCharacters,
              gameState := (gameState s)\<lparr>gameStarted := True, gameOver := False,
                                         timeLeft := GAME_DURATION\<rparr>,
              scopeVisible := True\<rparr>))"

text \<open>
  \<^verbatim>\<open>handleCharacterClick\<close> maps over the characters; the score updates it requests
  while mapping are applied in that order, the mapping function being run once for
  each click. \<open>clickCharacters\<close> is that mapping, on the characters and the state the
  updates start from. \<open>handleCharacterClick\<close> is the handler when nothing is queued:
  the flags its guard reads are then the current ones and the score updates are kept
  (for the general case see \<open>handleCharacterClickS\<close> below).
\<close>

fun clickCharacters :: "string \<Rightarrow> Character list \<Rightarrow> GameState \<Rightarrow> Character list \<times> GameState" where
  "clickCharacters k [] prevState = ([], prevState)"
| "clickCharacters k (c # cs) prevState =
     (if cid c = k \<and> \<not> isFound c then
        (if isGoofy c then
           (let (cs', st) =
                  clickCharacters k cs
                    (prevState\<lparr>score := score prevState + 100 * level prevState\<rparr>)
            in (c\<lparr>isFound := True\<rparr> # cs', st))
         else
           (let (cs', st) =
                  clickCharacters k cs (prevState\<lparr>score := max 0 (score prevState - 25)\<rparr>)
            in (c # cs', st)))
      else (let (cs', st) = clickCharacters k cs prevState in (c # cs', st)))"

definition handleCharacterClick :: "string \<Rightarrow> component \<Rightarrow> component" where
  "handleCharacterClick characterId s =
     (if \<not> gameStarted (gameState s) \<or> gameOver (gameState s) then s
      else (let (cs', st) = clickCharacters characterId (characters s) (gameState s)
            in s\<lparr>characters := cs', gameState := st\<rparr>))"

definition resetGame :: "component \<Rightarrow> component" where
  "resetGame s =
     s\<lparr>intervals := clearInterval (timerRef s) (intervals s),
       gameState := \<lparr>score = 0, timeLeft = GAME_DURATION, gameStarted = False,
                     gameOver = False, difficulty = difficulty (gameState s), level = 1\<rparr>,
       characters := [],
       scopeVisible := False\<rparr>"

definition nextLevel :: "(nat \<Rightarrow> real) \<Rightarrow> component \<Rightarrow> component" where
  "nextLevel rnd s =
     (let newCharacters =
            generateCharacters (difficulty (gameState s)) (level (gameState s)) rnd
      in setInterval
           (s\<lparr>characters := newCharacters,
              gameState := (gameState s)\<lparr>gameStarted := True, gameOver := False,
                                         timeLeft := GAME_DURATION\<rparr>,
              scopeVisible := True\<rparr>))"

text \<open>The \<^verbatim>\<open>onChange\<close> of the difficulty selector.\<close>

definition selectDifficulty :: "Difficulty \<Rightarrow> component \<Rightarrow> component" where
  "selectDifficulty d s = s\<lparr>gameState := (gameState s)\<lparr>difficulty := d\<rparr>\<rparr>"

subsection \<open>The two effects\<close>

definition allGoofysFound :: "Character list \<Rightarrow> bool" where
  "allGoofysFound cs \<longleftrightarrow> 0 < length cs \<and> list_all isFound (filter isGoofy cs)"

definition levelCompletionEffect :: "component \<Rightarrow> component" where
  "levelCompletionEffect s =
     (if \<not> gameStarted (gameState s) \<or> gameOver (gameState s) then s
      else if allGoofysFound (characters s) then
        (let timeBonus = timeLeft (gameState s) * 10;
             newScore = score (gameState s) + timeBonus;
             s1 = s\<lparr>intervals := clearInterval (timerRef s) (intervals s),
                    gameState := (gameState s)\<lparr>score := newScore,
                                               level := level (gameState s) + 1,
                                               gameOver := True\<rparr>\<rparr>
         in if exceeds newScore (highScore s)
            then s1\<lparr>highScore := Num newScore, localStorage := Some (toString newScore)\<rparr>
            else s1)
      else s)"

definition gameOverEffect :: "component \<Rightarrow> component" where
  "gameOverEffect s =
     (if gameOver (gameState s)
      then s\<lparr>scopeVisible := False, intervals := clearInterval (timerRef s) (intervals s)\<rparr>
      else s)"

text \<open>
  With nothing else queued, the effects that follow a commit and the render of the
  updates they request amount to one pass of both: the state update of the first effect
  makes it return early when it runs again, and the second effect changes no state it
  reads.
\<close>

definition runEffects :: "component \<Rightarrow> component" where
  "runEffects s = gameOverEffect (levelCompletionEffect s)"

section \<open>Events\<close>

text \<open>
  The events the component can receive: the buttons Start, Next Level and Restart or
  Try Again, the difficulty selector, a click on the character with a given id, and the
  firing of the interval with a given handle. Start and Next Level carry the draws
  \<^verbatim>\<open>Math.random()\<close> will return. \<open>handle\<close> and \<open>dispatch\<close> say what an event
  does when it arrives with nothing queued and everything it causes is rendered before
  the next event arrives; what happens when a click arrives between the firing of the
  interval and the render of its update is the subject of the next section.
\<close>

datatype event =
    Start "nat \<Rightarrow> real"
  | NextLevel "nat \<Rightarrow> real"
  | Reset
  | SelectDifficulty Difficulty
  | Click string
  | Tick nat

fun handle :: "component \<Rightarrow> event \<Rightarrow> component" where
  "handle s (Start rnd) = startGame rnd s"
| "handle s (NextLevel rnd) = nextLevel rnd s"
| "handle s Reset = resetGame s"
| "handle s (SelectDifficulty d) = selectDifficulty d s"
| "handle s (Click k) = handleCharacterClick k s"
| "handle s (Tick h) = intervalTick s"

definition dispatch :: "component \<Rightarrow> event \<Rightarrow> component" where
  "dispatch s e = runEffects (handle s e)"

text \<open>
  What is rendered decides which events can arrive: the Start button is there when the
  game has not started, Next Level when it is over with time left, a reset button
  whenever it is over, and the selector is disabled once the game has started. The
  character buttons are always in the page, and an interval fires only while it is
  live.
\<close>

fun enabled :: "component \<Rightarrow> event \<Rightarrow> bool" where
  "enabled s (Start rnd) = (\<not> gameStarted (gameState s))"
| "enabled s (NextLevel rnd) =
     (gameStarted (gameState s) \<and> gameOver (gameState s) \<and> 0 < timeLeft (gameState s))"
| "enabled s Reset = (gameStarted (gameState s) \<and> gameOver (gameState s))"
| "enabled s (SelectDifficulty d) = (\<not> gameStarted (gameState s))"
| "enabled s (Click k) = True"
| "enabled s (Tick h) = (h \<in> set (intervals s))"

inductive reachable :: "component \<Rightarrow> bool" where
  reachable_mount: "reachable (mount stored)"
| reachable_dispatch: "reachable s \<Longrightarrow> enabled s e \<Longrightarrow> reachable (dispatch s e)"

text \<open>Running a list of events, refusing one that is not enabled when its turn comes.\<close>

fun run :: "component \<Rightarrow> event list \<Rightarrow> component option" where
  "run s [] = Some s"
| "run s (e # es) = (if enabled s e then run (dispatch s e) es else None)"

definition active :: "component \<Rightarrow> bool" where
  "active s \<longleftrightarrow> gameStarted (gameState s) \<and> \<not> gameOver (gameState s)"

text \<open>Handling a list of events one after the other, whatever the state.\<close>

definition dispatchAll :: "component \<Rightarrow> event list \<Rightarrow> component" where
  "dispatchAll s es = foldl dispatch s es"

fun isTickOrClick :: "event \<Rightarrow> bool" where
  "isTickOrClick (Click k) = True"
| "isTickOrClick (Tick h) = True"
| "isTickOrClick e = False"

section \<open>Updates that wait for their render\<close>

text \<open>
  React does not apply a state update when it is requested. The updates a handler of a
  click or of the selector requests are rendered synchronously, before the next event.
  An update requested by the callback of the interval or by an effect is queued and
  rendered later, by a render that React schedules; a click can be handled in between.
  The synchronous render of that click skips the queued updates of a hook: it computes
  the state of the hook from its base state without them, and they stay in the queue,
  together with every later update of the hook, to be replayed on the base state when
  their render comes. An update requested while rendering, as the score updates of
  \<^verbatim>\<open>handleCharacterClick\<close> are (they are requested inside the updater given to
  \<^verbatim>\<open>setCharacters\<close>), is applied on top of the state of that render, and it is kept
  for the renders to come only when the hook has nothing queued.

  A session is what the last render has committed, which is what the page shows and
  what the closures of the handlers and of the effects read, with the base state of the
  \<^verbatim>\<open>gameState\<close> hook and the queue. The browser's part of \<open>rendered\<close> (intervals,
  store) is always current. The functions of the sections above say what a handler and
  the effects do when nothing is queued; \<open>dispatch\<close> is proved below to be what a
  session does with an event that arrives when every earlier update has been rendered,
  once the updates this event causes have been rendered too.
\<close>

datatype lane = SyncLane | DefaultLane

datatype update =
    TickUpdate
  | WinUpdate int
  | HighScoreUpdate int
  | StartUpdate
  | ResetUpdate Difficulty
  | SelectUpdate Difficulty

record session =
  rendered :: component
  base :: GameState
  pending :: "(lane \<times> update) list"

text \<open>
  Processing an update in a render: the updater of the interval's callback (with its
  \<^verbatim>\<open>clearInterval\<close>), the updater of the win check with the score it was given,
  \<^verbatim>\<open>setHighScore\<close>, and the updates of \<^verbatim>\<open>startGame\<close> or \<^verbatim>\<open>nextLevel\<close>, of
  \<^verbatim>\<open>resetGame\<close> and of the selector.
\<close>

fun applyUpdate :: "update \<Rightarrow> component \<Rightarrow> component" where
  "applyUpdate TickUpdate s = intervalTick s"
| "applyUpdate (WinUpdate newScore) s =
     s\<lparr>gameState := (gameState s)\<lparr>score := newScore,
                                    level := level (gameState s) + 1,
                                    gameOver := True\<rparr>\<rparr>"
| "applyUpdate (HighScoreUpdate newScore) s = s\<lparr>highScore := Num newScore\<rparr>"
| "applyUpdate StartUpdate s =
     s\<lparr>gameState := (gameState s)\<lparr>gameStarted := True, gameOver := False,
                                    timeLeft := GAME_DURATION\<rparr>\<rparr>"
| "applyUpdate (ResetUpdate d) s =
     s\<lparr>gameState := \<lparr>score = 0, timeLeft = GAME_DURATION, gameStarted = False,
                     gameOver = False, difficulty = d, level = 1\<rparr>\<rparr>"
| "applyUpdate (SelectUpdate d) s = s\<lparr>gameState := (gameState s)\<lparr>difficulty := d\<rparr>\<rparr>"

fun isGameStateUpdate :: "update \<Rightarrow> bool" where
  "isGameStateUpdate (HighScoreUpdate n) = False"
| "isGameStateUpdate u = True"

definition gameStatePending :: "(lane \<times> update) list \<Rightarrow> bool" where
  "gameStatePending q = list_ex (\<lambda>(l, u). isGameStateUpdate u) q"

text \<open>
  Replaying the queue in its order: the scheduled render (\<open>everything\<close>) processes
  all of it, a synchronous render only the updates of its own lane.
\<close>

fun replay :: "bool \<Rightarrow> (lane \<times> update) list \<Rightarrow> component \<Rightarrow> component" where
  "replay everything [] s = s"
| "replay everything ((l, u) # q) s =
     replay everything q (if everything \<or> l = SyncLane then applyUpdate u s else s)"

definition workInProgress :: "bool \<Rightarrow> session \<Rightarrow> component" where
  "workInProgress everything ss =
     replay everything (pending ss) ((rendered ss)\<lparr>gameState := base ss\<rparr>)"

text \<open>
  \<^verbatim>\<open>setGameState\<close> in a handler: with nothing of the hook queued the update goes into
  the base state, otherwise it joins the queue and is replayed with it.
\<close>

definition setGameStateSync :: "update \<Rightarrow> session \<Rightarrow> session" where
  "setGameStateSync u ss =
     (if gameStatePending (pending ss) then ss\<lparr>pending := pending ss @ [(SyncLane, u)]\<rparr>
      else ss\<lparr>base := gameState (applyUpdate u ((rendered ss)\<lparr>gameState := base ss\<rparr>))\<rparr>)"

definition renderSync :: "session \<Rightarrow> session" where
  "renderSync ss = ss\<lparr>rendered := workInProgress False ss\<rparr>"

text \<open>
  The effects, run after every commit on what was rendered. The level-completion effect
  cancels the interval and writes the store at once, and queues its two state updates.
  (\<^verbatim>\<open>setScopeVisible(false)\<close> of the game-over effect only hides the overlay and is
  applied at once.)
\<close>

definition levelCompletionQueued :: "session \<Rightarrow> session" where
  "levelCompletionQueued ss =
     (let s = rendered ss
      in if \<not> gameStarted (gameState s) \<or> gameOver (gameState s) then ss
         else if allGoofysFound (characters s) then
           (let timeBonus = timeLeft (gameState s) * 10;
                newScore = score (gameState s) + timeBonus;
                s1 = s\<lparr>intervals := clearInterval (timerRef s) (intervals s)\<rparr>;
                ss1 = ss\<lparr>rendered := s1,
                         pending := pending ss @ [(DefaultLane, WinUpdate newScore)]\<rparr>
            in if exceeds newScore (highScore s)
               then ss1\<lparr>rendered := s1\<lparr>localStorage := Some (toString newScore)\<rparr>,
                        pending := pending ss1 @ [(DefaultLane, HighScoreUpdate newScore)]\<rparr>
               else ss1)
         else ss)"

definition afterCommit :: "session \<Rightarrow> session" where
  "afterCommit ss =
     (let ss1 = levelCompletionQueued ss
      in ss1\<lparr>rendered := gameOverEffect (rendered ss1)\<rparr>)"

subsection \<open>What a session does\<close>

text \<open>
  \<^verbatim>\<open>startGame\<close> and \<^verbatim>\<open>nextLevel\<close> (the same but for a toast) generate for the tier
  and level of the last render.
\<close>

definition startGameS :: "(nat \<Rightarrow> real) \<Rightarrow> session \<Rightarrow> session" where
  "startGameS rnd ss =
     (let s = rendered ss;
          newCharacters =
            generateCharacters (difficulty (gameState s)) (level (gameState s)) rnd
      in afterCommit (renderSync (setGameStateSync StartUpdate
           (ss\<lparr>rendered := setInterval (s\<lparr>characters := newCharacters,
                                            scopeVisible := True\<rparr>)\<rparr>))))"

definition resetGameS :: "session \<Rightarrow> session" where
  "resetGameS ss =
     (let s = rendered ss
      in afterCommit (renderSync (setGameStateSync (ResetUpdate (difficulty (gameState s)))
           (ss\<lparr>rendered := s\<lparr>intervals := clearInterval (timerRef s) (intervals s),
                               characters := [],
                               scopeVisible := False\<rparr>\<rparr>))))"

definition selectDifficultyS :: "Difficulty \<Rightarrow> session \<Rightarrow> session" where
  "selectDifficultyS d ss = afterCommit (renderSync (setGameStateSync (SelectUpdate d) ss))"

text \<open>
  \<^verbatim>\<open>handleCharacterClick\<close>: its guard reads the flags of the last render. The updater
  of the characters runs in the synchronous render, after the \<^verbatim>\<open>gameState\<close> hook has
  been computed without the queued updates; the score updates it requests go on top of
  that state and reach the base state only when nothing of the hook is queued.
\<close>

definition handleCharacterClickS :: "string \<Rightarrow> session \<Rightarrow> session" where
  "handleCharacterClickS characterId ss =
     (if \<not> gameStarted (gameState (rendered ss)) \<or> gameOver (gameState (rendered ss)) then ss
      else (let w = workInProgress False ss;
                (cs', st) = clickCharacters characterId (characters w) (gameState w)
            in afterCommit
                 (ss\<lparr>rendered := w\<lparr>characters := cs', gameState := st\<rparr>,
                     base := (if gameStatePending (pending ss) then base ss else st)\<rparr>)))"

text \<open>
  The callback of the interval queues its updater. (React may run the updater of the
  first update of an empty queue already here; the state it computes is the same, and
  the \<^verbatim>\<open>clearInterval\<close> of a tick that times the round out then comes earlier.)
\<close>

definition intervalFires :: "session \<Rightarrow> session" where
  "intervalFires ss = ss\<lparr>pending := pending ss @ [(DefaultLane, TickUpdate)]\<rparr>"

text \<open>The scheduled render: the whole queue is replayed on the base state.\<close>

definition renderQueued :: "session \<Rightarrow> session" where
  "renderQueued ss =
     (let s = workInProgress True ss
      in afterCommit \<lparr>rendered = s, base = gameState s, pending = []\<rparr>)"

datatype step = Arrives event | Renders

fun react :: "session \<Rightarrow> step \<Rightarrow> session" where
  "react ss (Arrives (Start rnd)) = startGameS rnd ss"
| "react ss (Arrives (NextLevel rnd)) = startGameS rnd ss"
| "react ss (Arrives Reset) = resetGameS ss"
| "react ss (Arrives (SelectDifficulty d)) = selectDifficultyS d ss"
| "react ss (Arrives (Click k)) = handleCharacterClickS k ss"
| "react ss (Arrives (Tick h)) = intervalFires ss"
| "react ss Renders = renderQueued ss"

text \<open>
  An event can arrive when the last render offers it; the scheduled render runs when
  something is queued.
\<close>

fun enabledS :: "session \<Rightarrow> step \<Rightarrow> bool" where
  "enabledS ss (Arrives e) = enabled (rendered ss) e"
| "enabledS ss Renders = (pending ss \<noteq> [])"

text \<open>The session in which nothing is queued and the component shows \<open>s\<close>.\<close>

definition atRest :: "component \<Rightarrow> session" where
  "atRest s = \<lparr>rendered = s, base = gameState s, pending = []\<rparr>"

inductive reachableS :: "session \<Rightarrow> bool" where
  reachableS_mount: "reachableS (atRest (mount stored))"
| reachableS_react: "reachableS ss \<Longrightarrow> enabledS ss x \<Longrightarrow> reachableS (react ss x)"

fun runS :: "session \<Rightarrow> step list \<Rightarrow> session option" where
  "runS ss [] = Some ss"
| "runS ss (x # xs) = (if enabledS ss x then runS (react ss x) xs else None)"

text \<open>Letting the scheduled render run, if there is something to render.\<close>

definition settle :: "session \<Rightarrow> session" where
  "settle ss = (if pending ss = [] then ss else renderQueued ss)"

section \<open>Invariants\<close>

text \<open>
  The timer invariant: no interval is live, or the round is active and the one live
  interval is the one \<open>timerRef\<close> holds.
\<close>

definition timerInv :: "component \<Rightarrow> bool" where
  "timerInv s =
     (case intervals s of
        [] \<Rightarrow> True
      | [h] \<Rightarrow> active s \<and> timerRef s = Some h
      | _ \<Rightarrow> False)"

definition roundInv :: "component \<Rightarrow> bool" where
  "roundInv s \<longleftrightarrow>
     1 \<le> level (gameState s) \<and> 0 \<le> score (gameState s)
     \<and> 0 \<le> timeLeft (gameState s) \<and> timeLeft (gameState s) \<le> GAME_DURATION
     \<and> (active s \<longrightarrow> 1 \<le> timeLeft (gameState s))
     \<and> (gameOver (gameState s) \<longrightarrow> gameStarted (gameState s))
     \<and> (gameStarted (gameState s) \<longrightarrow> characters s \<noteq> [])
     \<and> distinct (map cid (characters s))"

text \<open>
  The invariants of the reachable sessions. The queue holds only updates of the
  interval's callback and of the win check, waiting for the scheduled render; something
  is queued only while the last render shows an active round; once the win check has
  queued its update no interval is live; and the base state differs from the state
  rendered at most in the score.
\<close>

fun isWinUpdate :: "update \<Rightarrow> bool" where
  "isWinUpdate (WinUpdate n) = True"
| "isWinUpdate u = False"

fun queueable :: "lane \<times> update \<Rightarrow> bool" where
  "queueable (l, TickUpdate) = (l = DefaultLane)"
| "queueable (l, WinUpdate n) = (l = DefaultLane \<and> 0 \<le> n)"
| "queueable (l, HighScoreUpdate n) = (l = DefaultLane)"
| "queueable (l, u) = False"

definition sessionInv :: "session \<Rightarrow> bool" where
  "sessionInv ss \<longleftrightarrow>
     roundInv (rendered ss) \<and> timerInv (rendered ss)
     \<and> list_all queueable (pending ss)
     \<and> (pending ss \<noteq> [] \<longrightarrow> active (rendered ss))
     \<and> (list_ex (\<lambda>(l, u). isWinUpdate u) (pending ss) \<longrightarrow> intervals (rendered ss) = [])
     \<and> (\<not> gameStatePending (pending ss) \<longrightarrow> base ss = gameState (rendered ss))
     \<and> base ss = (gameState (rendered ss))\<lparr>score := score (base ss)\<rparr>
     \<and> 0 \<le> score (base ss)"

section \<open>Concrete inputs\<close>

text \<open>A random source whose every draw is 0, and a round of the easy tier played with it.\<close>

definition zeroDraws :: "nat \<Rightarrow> real" where
  "zeroDraws k = 0"

definition easyStart :: "event list" where
  "easyStart = [SelectDifficulty Easy, Start zeroDraws]"

definition threeTargets :: "event list" where
  "threeTargets = [Click ''goofy-0'', Click ''goofy-1'', Click ''goofy-2'']"

text \<open>States of that round: started, two targets found, won, and timed out.\<close>

definition easyRound :: component where
  "easyRound = dispatchAll (mount None) easyStart"

definition twoFound :: component where
  "twoFound = dispatchAll (mount None) (easyStart @ [Click ''goofy-0'', Click ''goofy-1''])"

definition wonRound :: component where
  "wonRound = dispatchAll (mount None) (easyStart @ threeTargets)"

definition timedOut :: component where
  "timedOut = dispatchAll (mount None) (easyStart @ [Click ''goofy-0''] @ replicate 60 (Tick 1))"

text \<open>An active round without characters, which no press of Start produces.\<close>

definition emptyRound :: component where
  "emptyRound = (mount None)\<lparr>gameState := (gameState (mount None))\<lparr>gameStarted := True\<rparr>\<rparr>"

text \<open>Every live interval is the one \<open>timerRef\<close> holds.\<close>

definition liveIsCurrent :: "component \<Rightarrow> bool" where
  "liveIsCurrent s = list_all (\<lambda>h. timerRef s = Some h) (intervals s)"

text \<open>
  States with a live interval on which the cancelling code can be seen to act: the easy
  round one second before its end, the moment the last target has been clicked and the
  effects have not run yet, and that moment with the over flag set.
\<close>

definition lastSecond :: component where
  "lastSecond = dispatchAll (mount None) (easyStart @ replicate 59 (Tick 1))"

definition allFoundLive :: component where
  "allFoundLive = handleCharacterClick ''goofy-2'' twoFound"

definition overLive :: component where
  "overLive = applyUpdate (WinUpdate 900) allFoundLive"

text \<open>
  Runs of a session from the mount with nothing stored, and the game state they end
  with. In each of the four runs the interval fires and a click is handled before the
  render of the tick: a click on a target, a click on a character that is not a target
  after one target was found, the click on the last target, and the click on the last
  target when the tick that fired is the one that times the round out.
\<close>

definition outcome :: "step list \<Rightarrow> GameState option" where
  "outcome xs = map_option (gameState \<circ> rendered) (runS (atRest (mount None)) xs)"

definition foundTargets :: "step list \<Rightarrow> bool list option" where
  "foundTargets xs =
     map_option (map isFound \<circ> filter isGoofy \<circ> characters \<circ> rendered)
       (runS (atRest (mount None)) xs)"

definition storedAfter :: "step list \<Rightarrow> string option option" where
  "storedAfter xs = map_option (localStorage \<circ> rendered) (runS (atRest (mount None)) xs)"

definition easySteps :: "step list" where
  "easySteps = map Arrives easyStart"

definition targetDuringTick :: "step list" where
  "targetDuringTick = easySteps @ [Arrives (Tick 1), Arrives (Click ''goofy-0''), Renders]"

definition wrongDuringTick :: "step list" where
  "wrongDuringTick =
     easySteps @ [Arrives (Click ''goofy-0''), Arrives (Tick 1), Arrives (Click ''char-0''),
                  Renders]"

definition twoFoundSteps :: "step list" where
  "twoFoundSteps = easySteps @ [Arrives (Click ''goofy-0''), Arrives (Click ''goofy-1'')]"

definition winDuringTick :: "step list" where
  "winDuringTick = twoFoundSteps @ [Arrives (Tick 1), Arrives (Click ''goofy-2''), Renders]"

definition lastSecondSteps :: "step list" where
  "lastSecondSteps =
     easySteps @ concat (replicate 59 [Arrives (Tick 1), Renders])
       @ [Arrives (Click ''goofy-0''), Arrives (Click ''goofy-1'')]"

definition clickAfterTimeout :: "step list" where
  "clickAfterTimeout =
     lastSecondSteps @ [Arrives (Tick 1), Arrives (Click ''goofy-2''), Renders]"

section \<open>The generator's counts\<close>

lemma decimal_nonempty: "decimal n \<noteq> []"
  by (subst decimal.simps) simp

lemma digit_inj:
  assumes "a < 10" "b < 10" and eq: "''0123456789'' ! a = ''0123456789'' ! b"
  shows "a = b"
proof -
  have d: "distinct ''0123456789''" by simp
  have "a < length ''0123456789''" "b < length ''0123456789''"
    using assms(1,2) by simp_all
  with d eq show "a = b" by (simp only: nth_eq_iff_index_eq)
qed

text \<open>Two numbers with the same decimal writing are equal, so the generated ids differ.\<close>

lemma decimal_inj: "decimal n = decimal m \<Longrightarrow> n = m"
proof (induction n arbitrary: m rule: decimal.induct)
  case (1 n)
  show ?case
  proof (cases "n < 10")
    case True
    then have dn: "decimal n = [''0123456789'' ! n]" by (subst decimal.simps) simp
    show ?thesis
    proof (cases "m < 10")
      case mlt: True
      then have "decimal m = [''0123456789'' ! m]" by (subst decimal.simps) simp
      with dn "1.prems" have "''0123456789'' ! n = ''0123456789'' ! m" by simp
      with True mlt show ?thesis by (rule digit_inj)
    next
      case False
      then have "decimal m = decimal (m div 10) @ [''0123456789'' ! (m mod 10)]"
        by (subst decimal.simps) simp
      with dn "1.prems" decimal_nonempty[of "m div 10"] show ?thesis
        by (cases "decimal (m div 10)") auto
    qed
  next
    case False
    then have dn: "decimal n = decimal (n div 10) @ [''0123456789'' ! (n mod 10)]"
      by (subst decimal.simps) simp
    show ?thesis
    proof (cases "m < 10")
      case True
      then have "decimal m = [''0123456789'' ! m]" by (subst decimal.simps) simp
      with dn "1.prems" decimal_nonempty[of "n div 10"] show ?thesis
        by (cases "decimal (n div 10)") auto
    next
      case mge: False
      then have dm: "decimal m = decimal (m div 10) @ [''0123456789'' ! (m mod 10)]"
        by (subst decimal.simps) simp
      from dn dm "1.prems" have a: "decimal (n div 10) = decimal (m div 10)"
        and b: "''0123456789'' ! (n mod 10) = ''0123456789'' ! (m mod 10)" by simp_all
      from "1.IH"[OF False a] have q: "n div 10 = m div 10" .
      have "n mod 10 = m mod 10" by (rule digit_inj[OF _ _ b]) simp_all
      with q show ?thesis by (metis div_mult_mod_eq)
    qed
  qed
qed

lemma goofysFor_bounds: "1 \<le> lv \<Longrightarrow> 3 \<le> goofysFor d lv \<and> goofysFor d lv \<le> 12"
  by (cases d) (auto simp: goofysFor_def)

lemma totalFor_bounds: "1 \<le> lv \<Longrightarrow> 20 \<le> totalFor d lv \<and> totalFor d lv \<le> 80"
  by (cases d) (auto simp: totalFor_def)

lemma length_generateCharacters:
  "1 \<le> lv \<Longrightarrow> int (length (generateCharacters d lv rnd)) = totalFor d lv"
  using goofysFor_bounds[of lv d] totalFor_bounds[of lv d]
  by (simp add: generateCharacters_def Let_def)

lemma filter_isGoofy_generateCharacters:
  "filter isGoofy (generateCharacters d lv rnd)
     = map (goofyCharacter rnd) [0..<nat (goofysFor d lv)]"
  by (simp add: generateCharacters_def Let_def filter_map o_def goofyCharacter_def
        regularCharacter_def)


lemma distinct_generateCharacters:
  "distinct (map cid (generateCharacters d lv rnd))"
  by (auto simp: generateCharacters_def Let_def distinct_map inj_on_def
       goofyCharacter_def regularCharacter_def dest: decimal_inj)

lemma generateCharacters_not_won:
  "1 \<le> lv \<Longrightarrow> \<not> allGoofysFound (generateCharacters d lv rnd)"
  using goofysFor_bounds[of lv d]
  by (auto simp: allGoofysFound_def filter_isGoofy_generateCharacters list_all_iff
       goofyCharacter_def intro!: exI[of _ 0])

text \<open>
  Claim C8. For every difficulty tier and every level from 1 on, the generator returns
  exactly \<open>min (base count of the tier + 5 * (level - 1)) 80\<close> characters, of which
  exactly \<open>min (base targets of the tier + floor ((level - 1) / 2)) 12\<close> are targets;
  so there are at most 12 targets, at most 80 characters, and no more targets than
  characters.
\<close>

theorem generator_counts:
  "1 \<le> lv \<Longrightarrow>
     int (length (generateCharacters d lv rnd))
       = min (totalCharacters (DIFFICULTIES d) + 5 * (lv - 1)) 80
   \<and> int (length (filter isGoofy (generateCharacters d lv rnd)))
       = min (goofyCount (DIFFICULTIES d) + (lv - 1) div 2) 12
   \<and> length (filter isGoofy (generateCharacters d lv rnd)) \<le> 12
   \<and> length (generateCharacters d lv rnd) \<le> 80
   \<and> length (filter isGoofy (generateCharacters d lv rnd))
       \<le> length (generateCharacters d lv rnd)"
proof -
  assume lv: "1 \<le> lv"
  have t: "int (length (generateCharacters d lv rnd)) = totalFor d lv"
    using lv by (rule length_generateCharacters)
  have g: "int (length (filter isGoofy (generateCharacters d lv rnd))) = goofysFor d lv"
    using goofysFor_bounds[OF lv, of d] by (simp add: filter_isGoofy_generateCharacters)
  have t1: "totalFor d lv = min (totalCharacters (DIFFICULTIES d) + 5 * (lv - 1)) 80"
    by (simp add: totalFor_def mult.commute)
  have g1: "goofysFor d lv = min (goofyCount (DIFFICULTIES d) + (lv - 1) div 2) 12"
    by (simp add: goofysFor_def)
  have g12: "length (filter isGoofy (generateCharacters d lv rnd)) \<le> 12"
    using g goofysFor_bounds[OF lv, of d] by linarith
  have t80: "length (generateCharacters d lv rnd) \<le> 80"
    using t totalFor_bounds[OF lv, of d] by linarith
  have gt: "length (filter isGoofy (generateCharacters d lv rnd))
              \<le> length (generateCharacters d lv rnd)"
    by (rule length_filter_le)
  from t g t1 g1 g12 t80 gt show ?thesis by (simp only: simp_thms)
qed

theorem generator_counts_witness:
  "(1::int) \<le> 3
   \<and> int (length (generateCharacters Hard 3 zeroDraws)) = 70
   \<and> int (length (filter isGoofy (generateCharacters Hard 3 zeroDraws))) = 8
   \<and> length (filter isGoofy (generateCharacters Hard 3 zeroDraws)) \<le> 12
   \<and> length (generateCharacters Hard 3 zeroDraws) \<le> 80
   \<and> length (filter isGoofy (generateCharacters Hard 3 zeroDraws))
       \<le> length (generateCharacters Hard 3 zeroDraws)"
  using generator_counts [of 3 Hard zeroDraws] by simp

section \<open>Clicks\<close>

lemma click_cids: "map cid (fst (clickCharacters k cs st)) = map cid cs"
  by (induction cs arbitrary: st) (simp_all add: split_beta)

lemma click_nonempty: "fst (clickCharacters k cs st) = [] \<longleftrightarrow> cs = []"
  using click_cids[of k cs st] by (metis map_is_Nil_conv)

lemma click_frame:
  "level (snd (clickCharacters k cs st)) = level st
   \<and> timeLeft (snd (clickCharacters k cs st)) = timeLeft st
   \<and> gameStarted (snd (clickCharacters k cs st)) = gameStarted st
   \<and> gameOver (snd (clickCharacters k cs st)) = gameOver st
   \<and> difficulty (snd (clickCharacters k cs st)) = difficulty st"
  by (induction cs arbitrary: st) (simp_all add: split_beta)

lemma click_score_nonneg:
  "0 \<le> score st \<Longrightarrow> 0 \<le> level st \<Longrightarrow> 0 \<le> score (snd (clickCharacters k cs st))"
proof (induction cs arbitrary: st)
  case Nil
  then show ?case by simp
next
  case (Cons c cs)
  have a: "0 \<le> score (snd (clickCharacters k cs (st\<lparr>score := score st + 100 * level st\<rparr>)))"
    using Cons.prems by (intro Cons.IH) simp_all
  have b: "0 \<le> score (snd (clickCharacters k cs (st\<lparr>score := max 0 (score st - 25)\<rparr>)))"
    using Cons.prems by (intro Cons.IH) simp_all
  have c: "0 \<le> score (snd (clickCharacters k cs st))"
    using Cons.prems by (intro Cons.IH)
  from a b c show ?case by (simp add: split_beta)
qed

lemma click_absent: "k \<notin> cid ` set cs \<Longrightarrow> clickCharacters k cs st = (cs, st)"
  by (induction cs arbitrary: st) auto

lemma click_present:
  "distinct (map cid cs) \<Longrightarrow> c \<in> set cs \<Longrightarrow>
   clickCharacters (cid c) cs st =
     (if isFound c then (cs, st)
      else if isGoofy c
        then (map (\<lambda>d. if d = c then c\<lparr>isFound := True\<rparr> else d) cs,
              st\<lparr>score := score st + 100 * level st\<rparr>)
        else (cs, st\<lparr>score := max 0 (score st - 25)\<rparr>))"
proof (induction cs arbitrary: st)
  case Nil
  then show ?case by simp
next
  case (Cons a cs)
  show ?case
  proof (cases "a = c")
    case True
    with Cons.prems have "cid c \<notin> cid ` set cs" by auto
    then have r: "\<And>st'. clickCharacters (cid c) cs st' = (cs, st')" by (rule click_absent)
    from Cons.prems True have "c \<notin> set cs" by auto
    then have m: "map (\<lambda>d. if d = c then c\<lparr>isFound := True\<rparr> else d) cs = cs"
      by (induction cs) auto
    from True r m show ?thesis by simp
  next
    case False
    with Cons.prems have mem: "c \<in> set cs" and d: "distinct (map cid cs)" by auto
    from Cons.prems mem have "cid a \<noteq> cid c" by auto
    with Cons.IH[OF d mem] False show ?thesis by simp
  qed
qed


section \<open>The invariants hold in every reachable state\<close>

lemma timerInv_iff:
  "timerInv s \<longleftrightarrow>
     intervals s = [] \<or> (active s \<and> (\<exists>h. intervals s = [h] \<and> timerRef s = Some h))"
  by (auto simp: timerInv_def split: list.splits)

lemma clearInterval_timerInv:
  "timerInv s \<Longrightarrow> clearInterval (timerRef s) (intervals s) = []"
  by (auto simp: timerInv_iff clearInterval_def split: option.splits)

lemma inv_mount: "roundInv (mount stored) \<and> timerInv (mount stored)"
  by (simp add: roundInv_def timerInv_iff mount_def active_def GAME_DURATION_def)

lemma timerInv_idle: "timerInv s \<Longrightarrow> \<not> active s \<Longrightarrow> intervals s = []"
  by (auto simp: timerInv_iff)

lemma inv_startGame:
  assumes "roundInv s" "timerInv s" "\<not> active s"
  shows "roundInv (startGame rnd s) \<and> timerInv (startGame rnd s)"
proof -
  have i: "intervals s = []" using assms(2,3) by (rule timerInv_idle)
  have lv: "1 \<le> level (gameState s)" using assms(1) by (simp add: roundInv_def)
  have ne: "generateCharacters (difficulty (gameState s)) (level (gameState s)) rnd \<noteq> []"
    using length_generateCharacters[OF lv, of "difficulty (gameState s)" rnd]
      totalFor_bounds[OF lv, of "difficulty (gameState s)"] by auto
  show ?thesis using assms(1) i ne
    by (simp add: roundInv_def timerInv_iff startGame_def setInterval_def Let_def active_def
          GAME_DURATION_def distinct_generateCharacters)
qed

lemma nextLevel_eq: "nextLevel rnd s = startGame rnd s"
  by (simp add: nextLevel_def startGame_def)

lemma inv_intervalTick:
  assumes "roundInv s" "timerInv s" "h \<in> set (intervals s)"
  shows "roundInv (intervalTick s) \<and> timerInv (intervalTick s)"
proof -
  have a: "active s" using assms(2,3) by (auto simp: timerInv_iff)
  show ?thesis
    using assms(1,2) a clearInterval_timerInv[OF assms(2)]
    by (auto simp: roundInv_def timerInv_iff intervalTick_def Let_def active_def)
qed

lemma inv_resetGame:
  assumes "roundInv s" "timerInv s"
  shows "roundInv (resetGame s) \<and> timerInv (resetGame s)"
  using assms clearInterval_timerInv[OF assms(2)]
  by (simp add: roundInv_def timerInv_iff resetGame_def active_def GAME_DURATION_def)

lemma inv_selectDifficulty:
  assumes "roundInv s" "timerInv s"
  shows "roundInv (selectDifficulty d s) \<and> timerInv (selectDifficulty d s)"
  using assms
  by (simp add: roundInv_def timerInv_iff selectDifficulty_def active_def)

lemma inv_handleCharacterClick:
  assumes "roundInv s" "timerInv s"
  shows "roundInv (handleCharacterClick k s) \<and> timerInv (handleCharacterClick k s)"
proof (cases "\<not> gameStarted (gameState s) \<or> gameOver (gameState s)")
  case True
  with assms show ?thesis by (simp add: handleCharacterClick_def)
next
  case False
  obtain cs' st where r: "clickCharacters k (characters s) (gameState s) = (cs', st)"
    by (cases "clickCharacters k (characters s) (gameState s)")
  then have h: "handleCharacterClick k s = s\<lparr>characters := cs', gameState := st\<rparr>"
    using False by (simp add: handleCharacterClick_def)
  have f: "level st = level (gameState s)" "timeLeft st = timeLeft (gameState s)"
    "gameStarted st = gameStarted (gameState s)" "gameOver st = gameOver (gameState s)"
    using click_frame[of k "characters s" "gameState s"] r by simp_all
  have sc: "0 \<le> score st"
    using click_score_nonneg[of "gameState s" k "characters s"] r assms(1)
    by (simp add: roundInv_def)
  have ids: "map cid cs' = map cid (characters s)"
    using click_cids[of k "characters s" "gameState s"] r by simp
  have ne: "cs' = [] \<longleftrightarrow> characters s = []"
    using click_nonempty[of k "characters s" "gameState s"] r by simp
  show ?thesis using assms f sc ids ne
    by (simp add: h roundInv_def timerInv_iff active_def)
qed

lemma inv_handle:
  assumes "roundInv s" "timerInv s" "enabled s e"
  shows "roundInv (handle s e) \<and> timerInv (handle s e)"
proof (cases e)
  case (Start rnd)
  with assms show ?thesis by (simp add: inv_startGame active_def)
next
  case (NextLevel rnd)
  with assms show ?thesis by (simp add: nextLevel_eq inv_startGame active_def)
next
  case Reset
  with assms show ?thesis by (simp add: inv_resetGame)
next
  case (SelectDifficulty d)
  with assms show ?thesis by (simp add: inv_selectDifficulty)
next
  case (Click k)
  with assms show ?thesis by (simp add: inv_handleCharacterClick)
next
  case (Tick h)
  with assms show ?thesis using inv_intervalTick[of s h] by simp
qed

lemma inv_levelCompletionEffect:
  assumes "roundInv s" "timerInv s"
  shows "roundInv (levelCompletionEffect s) \<and> timerInv (levelCompletionEffect s)"
  using assms clearInterval_timerInv[OF assms(2)]
  by (auto simp: roundInv_def timerInv_iff levelCompletionEffect_def Let_def active_def)

lemma inv_gameOverEffect:
  assumes "roundInv s" "timerInv s"
  shows "roundInv (gameOverEffect s) \<and> timerInv (gameOverEffect s)"
  using assms clearInterval_timerInv[OF assms(2)]
  by (auto simp: roundInv_def timerInv_iff gameOverEffect_def active_def)

lemma inv_runEffects:
  assumes "roundInv s" "timerInv s"
  shows "roundInv (runEffects s) \<and> timerInv (runEffects s)"
  using inv_levelCompletionEffect[OF assms] inv_gameOverEffect
  by (simp add: runEffects_def)

lemma reachable_inv: "reachable s \<Longrightarrow> roundInv s \<and> timerInv s"
proof (induction rule: reachable.induct)
  case (reachable_mount stored)
  show ?case by (rule inv_mount)
next
  case (reachable_dispatch s e)
  then have "roundInv (handle s e) \<and> timerInv (handle s e)" by (simp add: inv_handle)
  then show ?case by (simp add: dispatch_def inv_runEffects)
qed

section \<open>Ticks and clicks on a running round\<close>

lemma easy_round_started: "dispatch (dispatch (mount stored) (SelectDifficulty Easy)) (Start rnd) =
  \<lparr>gameState = \<lparr>score = 0, timeLeft = 60, gameStarted = True, gameOver = False, difficulty = Easy, level = 1\<rparr>,
   characters = generateCharacters Easy 1 rnd, scopeVisible = True, highScore = parseInt (orZero stored),
   timerRef = Some 1, intervals = [1], nextHandle = 2, localStorage = stored\<rparr>"
  using generateCharacters_not_won[of 1 Easy rnd]
  by (simp add: mount_def dispatch_def selectDifficulty_def startGame_def setInterval_def
       runEffects_def levelCompletionEffect_def gameOverEffect_def GAME_DURATION_def Let_def)

lemma dispatch_tick:
  assumes "gameStarted (gameState s)" "\<not> gameOver (gameState s)" "1 < timeLeft (gameState s)"
    "\<not> allGoofysFound (characters s)"
  shows "dispatch s (Tick h) = s\<lparr>gameState := (gameState s)\<lparr>timeLeft := timeLeft (gameState s) - 1\<rparr>\<rparr>"
  using assms
  by (simp add: dispatch_def runEffects_def levelCompletionEffect_def gameOverEffect_def
        intervalTick_def Let_def)

lemma run_ticks:
  "gameStarted (gameState s) \<Longrightarrow> \<not> gameOver (gameState s) \<Longrightarrow> int n < timeLeft (gameState s)
   \<Longrightarrow> \<not> allGoofysFound (characters s) \<Longrightarrow> h \<in> set (intervals s)
   \<Longrightarrow> run s (replicate n (Tick h) @ es)
        = run (s\<lparr>gameState := (gameState s)\<lparr>timeLeft := timeLeft (gameState s) - int n\<rparr>\<rparr>) es"
proof (induction n arbitrary: s)
  case 0
  then show ?case by simp
next
  case (Suc n)
  have d: "dispatch s (Tick h) = s\<lparr>gameState := (gameState s)\<lparr>timeLeft := timeLeft (gameState s) - 1\<rparr>\<rparr>"
    using Suc.prems by (intro dispatch_tick) simp_all
  have "run s (replicate (Suc n) (Tick h) @ es) = run (dispatch s (Tick h)) (replicate n (Tick h) @ es)"
    using Suc.prems by simp
  also have "\<dots> = run ((dispatch s (Tick h))\<lparr>gameState := (gameState (dispatch s (Tick h)))\<lparr>timeLeft := timeLeft (gameState (dispatch s (Tick h))) - int n\<rparr>\<rparr>) es"
    using Suc.prems by (intro Suc.IH) (simp_all add: d)
  also have "\<dots> = run (s\<lparr>gameState := (gameState s)\<lparr>timeLeft := timeLeft (gameState s) - int (Suc n)\<rparr>\<rparr>) es"
    by (simp add: d algebra_simps)
  finally show ?case .
qed


lemma gen_easy1: "generateCharacters Easy 1 rnd =
   [goofyCharacter rnd 0, goofyCharacter rnd 1, goofyCharacter rnd 2] @ map (regularCharacter rnd 6) [0..<17]"
proof -
  have "[0..<3] = [0, 1, 2::nat]" by code_simp
  then show ?thesis
    by (simp add: generateCharacters_def totalFor_def goofysFor_def Let_def)
qed

lemma click_goofy_regs:
  "clickCharacters (''goofy-'' @ x) (gs @ map (regularCharacter rnd u) ns) st
     = (fst (clickCharacters (''goofy-'' @ x) gs st) @ map (regularCharacter rnd u) ns,
        snd (clickCharacters (''goofy-'' @ x) gs st))"
proof (induction gs arbitrary: st)
  case Nil
  have "(''goofy-'' @ x) \<notin> cid ` set (map (regularCharacter rnd u) ns)"
    by (auto simp: regularCharacter_def)
  then show ?case by (simp add: click_absent)
next
  case (Cons g gs)
  then show ?case by (simp add: split_beta)
qed

lemma won_goofy_regs:
  "allGoofysFound (gs @ map (regularCharacter rnd u) ns)
     \<longleftrightarrow> (gs \<noteq> [] \<or> ns \<noteq> []) \<and> list_all isFound (filter isGoofy gs)"
  by (auto simp: allGoofysFound_def filter_map o_def regularCharacter_def)

lemma dispatch_click_continue:
  assumes "active s" "clickCharacters k (characters s) (gameState s) = (cs', st)"
    "\<not> allGoofysFound cs'"
  shows "dispatch s (Click k) = s\<lparr>characters := cs', gameState := st\<rparr>"
proof -
  have f: "gameStarted st" "\<not> gameOver st"
    using click_frame[of k "characters s" "gameState s"] assms(1,2) by (simp_all add: active_def)
  show ?thesis using assms f
    by (simp add: dispatch_def handleCharacterClick_def active_def runEffects_def
          levelCompletionEffect_def gameOverEffect_def)
qed

lemma dispatch_click_wins:
  assumes "active s" "clickCharacters k (characters s) (gameState s) = (cs', st)"
    "allGoofysFound cs'"
  shows "gameState (dispatch s (Click k))
           = st\<lparr>score := score st + timeLeft st * 10, level := level st + 1, gameOver := True\<rparr>
         \<and> intervals (dispatch s (Click k)) = clearInterval (timerRef s) (intervals s)
         \<and> characters (dispatch s (Click k)) = cs'"
proof -
  have f: "gameStarted st" "\<not> gameOver st"
    using click_frame[of k "characters s" "gameState s"] assms(1,2) by (simp_all add: active_def)
  have "clearInterval (timerRef s) (clearInterval (timerRef s) (intervals s))
          = clearInterval (timerRef s) (intervals s)"
    by (simp add: clearInterval_def split: option.splits)
  then show ?thesis using assms f
    by (simp add: dispatch_def handleCharacterClick_def active_def runEffects_def
          levelCompletionEffect_def gameOverEffect_def Let_def)
qed


text \<open>The easy tier at level 1, played to the end with 45 seconds left, for any draws.\<close>

lemma easy_round_750:
  "\<exists>s'. run (mount stored) ([SelectDifficulty Easy, Start rnd] @ replicate 15 (Tick 1) @ threeTargets) = Some s'
     \<and> score (gameState s') = 750 \<and> timeLeft (gameState s') = 45 \<and> gameOver (gameState s')
     \<and> intervals s' = [] \<and> length (characters s') = 20
     \<and> length (filter isGoofy (characters s')) = 3"
proof -
  let ?s2 = "dispatch (dispatch (mount stored) (SelectDifficulty Easy)) (Start rnd)"
  define regs where "regs = map (regularCharacter rnd 6) [0..<17]"
  define g0 where "g0 = goofyCharacter rnd 0"
  define g1 where "g1 = goofyCharacter rnd 1"
  define g2 where "g2 = goofyCharacter rnd 2"
  define s3 where "s3 = ?s2\<lparr>gameState := (gameState ?s2)\<lparr>timeLeft := timeLeft (gameState ?s2) - int 15\<rparr>\<rparr>"
  have e: "enabled (mount stored) (SelectDifficulty Easy)"
    "enabled (dispatch (mount stored) (SelectDifficulty Easy)) (Start rnd)"
    by (simp_all add: mount_def dispatch_def selectDifficulty_def
       runEffects_def levelCompletionEffect_def gameOverEffect_def)
  have "run (mount stored) ([SelectDifficulty Easy, Start rnd] @ replicate 15 (Tick 1) @ threeTargets)
     = run ?s2 (replicate 15 (Tick 1) @ threeTargets)"
    using e by simp
  also have "\<dots> = run s3 threeTargets"
    unfolding s3_def using generateCharacters_not_won[of 1 Easy rnd]
    by (intro run_ticks) (simp_all add: easy_round_started)
  finally have r: "run (mount stored) ([SelectDifficulty Easy, Start rnd] @ replicate 15 (Tick 1) @ threeTargets)
     = run s3 threeTargets" .
  have gs3: "gameState s3 = \<lparr>score = 0, timeLeft = 45, gameStarted = True, gameOver = False,
               difficulty = Easy, level = 1\<rparr>"
    and cs3: "characters s3 = [g0, g1, g2] @ regs"
    and t3: "timerRef s3 = Some 1" "intervals s3 = [1]"
    by (simp_all add: s3_def easy_round_started gen_easy1 regs_def g0_def g1_def g2_def)
  have ids: "cid g0 = ''goofy-0''" "cid g1 = ''goofy-1''" "cid g2 = ''goofy-2''"
    and gf: "isGoofy g0" "isGoofy g1" "isGoofy g2" "\<not> isFound g0" "\<not> isFound g1" "\<not> isFound g2"
    by (simp_all add: g0_def g1_def g2_def goofyCharacter_def decimal.simps)
  have k: "''goofy-0'' = ''goofy-'' @ ''0''" "''goofy-1'' = ''goofy-'' @ ''1''"
    "''goofy-2'' = ''goofy-'' @ ''2''" by simp_all
  define s4 where "s4 = s3\<lparr>characters := [g0\<lparr>isFound := True\<rparr>, g1, g2] @ regs,
                          gameState := (gameState s3)\<lparr>score := 100\<rparr>\<rparr>"
  define s5 where "s5 = s4\<lparr>characters := [g0\<lparr>isFound := True\<rparr>, g1\<lparr>isFound := True\<rparr>, g2] @ regs,
                          gameState := (gameState s4)\<lparr>score := 200\<rparr>\<rparr>"
  have d4: "dispatch s3 (Click ''goofy-0'') = s4"
    unfolding s4_def
    by (rule dispatch_click_continue)
       (simp_all add: active_def gs3 cs3 regs_def k(1) click_goofy_regs won_goofy_regs ids gf
          del: append.simps)
  have d5: "dispatch s4 (Click ''goofy-1'') = s5"
    unfolding s5_def
    by (rule dispatch_click_continue)
       (simp_all add: s4_def active_def gs3 regs_def k(2) click_goofy_regs won_goofy_regs ids gf
          del: append.simps)
  have d6: "gameState (dispatch s5 (Click ''goofy-2''))
           = (gameState s5)\<lparr>score := 300\<rparr>\<lparr>score := score ((gameState s5)\<lparr>score := 300\<rparr>) + timeLeft ((gameState s5)\<lparr>score := 300\<rparr>) * 10,
                level := level ((gameState s5)\<lparr>score := 300\<rparr>) + 1, gameOver := True\<rparr>
         \<and> intervals (dispatch s5 (Click ''goofy-2'')) = clearInterval (timerRef s5) (intervals s5)
         \<and> characters (dispatch s5 (Click ''goofy-2''))
             = [g0\<lparr>isFound := True\<rparr>, g1\<lparr>isFound := True\<rparr>, g2\<lparr>isFound := True\<rparr>] @ regs"
    by (rule dispatch_click_wins)
       (simp_all add: s5_def s4_def active_def gs3 regs_def k(3) click_goofy_regs won_goofy_regs ids gf
          del: append.simps)
  have "run s3 threeTargets = Some (dispatch s5 (Click ''goofy-2''))"
    by (simp add: threeTargets_def d4 d5)
  moreover have "filter isGoofy regs = []"
    by (simp add: regs_def filter_map o_def regularCharacter_def)
  moreover have "length regs = 17" by (simp add: regs_def)
  ultimately show ?thesis using r d6
    by (simp add: s5_def s4_def gs3 t3 clearInterval_def gf)
qed


section \<open>Concrete runs\<close>

lemma run_dispatchAll: "run s es = Some s' \<Longrightarrow> s' = dispatchAll s es"
  by (induction es arbitrary: s) (auto simp: dispatchAll_def split: if_splits)

lemma run_reachable: "reachable s \<Longrightarrow> run s es = Some s' \<Longrightarrow> reachable s'"
  by (induction es arbitrary: s) (auto split: if_splits intro: reachable_dispatch)

lemma reachable_run_mount: "run (mount stored) es = Some s \<Longrightarrow> reachable s"
  using run_reachable[OF reachable_mount] .

lemma run_easyRound: "run (mount None) easyStart = Some easyRound"
  by code_simp

lemma run_twoFound: "run (mount None) (easyStart @ [Click ''goofy-0'', Click ''goofy-1'']) = Some twoFound"
  by code_simp

lemma run_wonRound: "run (mount None) (easyStart @ threeTargets) = Some wonRound"
  by code_simp

lemma run_timedOut: "run (mount None) (easyStart @ [Click ''goofy-0''] @ replicate 60 (Tick 1)) = Some timedOut"
  by code_simp


section \<open>The interval timer\<close>

lemma runEffects_idle: "\<not> active s \<Longrightarrow> \<not> gameOver (gameState s) \<Longrightarrow> runEffects s = s"
  by (simp add: runEffects_def levelCompletionEffect_def gameOverEffect_def active_def)

lemma runEffects_not_won:
  "\<not> allGoofysFound (characters s) \<Longrightarrow> \<not> gameOver (gameState s) \<Longrightarrow> runEffects s = s"
  by (simp add: runEffects_def levelCompletionEffect_def gameOverEffect_def)

lemma runEffects_over: "gameOver (gameState s) \<Longrightarrow> gameState (runEffects s) = gameState s"
  by (simp add: runEffects_def levelCompletionEffect_def gameOverEffect_def)

text \<open>Running the effects a second time changes nothing: one pass is the whole cascade.\<close>

lemma runEffects_idem: "runEffects (runEffects s) = runEffects s"
proof -
  have c: "clearInterval (timerRef s) (clearInterval (timerRef s) (intervals s))
          = clearInterval (timerRef s) (intervals s)"
    by (simp add: clearInterval_def split: option.splits)
  show ?thesis
    by (simp add: runEffects_def levelCompletionEffect_def gameOverEffect_def Let_def c)
qed

lemma startGame_fields:
  "gameState (startGame rnd s) = (gameState s)\<lparr>gameStarted := True, gameOver := False, timeLeft := 60\<rparr>
   \<and> characters (startGame rnd s) = generateCharacters (difficulty (gameState s)) (level (gameState s)) rnd
   \<and> intervals (startGame rnd s) = nextHandle s # intervals s
   \<and> timerRef (startGame rnd s) = Some (nextHandle s)"
  by (simp add: startGame_def setInterval_def Let_def GAME_DURATION_def)

lemma dispatch_start:
  assumes "1 \<le> level (gameState s)"
  shows "dispatch s (Start rnd) = startGame rnd s" "dispatch s (NextLevel rnd) = startGame rnd s"
proof -
  have "\<not> allGoofysFound (characters (startGame rnd s))"
    using generateCharacters_not_won[OF assms] by (simp add: startGame_fields)
  moreover have "\<not> gameOver (gameState (startGame rnd s))" by (simp add: startGame_fields)
  ultimately have "runEffects (startGame rnd s) = startGame rnd s" by (rule runEffects_not_won)
  then show "dispatch s (Start rnd) = startGame rnd s" "dispatch s (NextLevel rnd) = startGame rnd s"
    by (simp_all add: dispatch_def nextLevel_eq)
qed

section \<open>Reset and the empty round\<close>

text \<open>
  Claim C9. Reset, in any state, leads to the idle state with score 0, level 1, the
  timer at 60 and no characters; of the fields of the game state only the difficulty
  keeps its value.
\<close>

theorem reset_to_idle:
  "gameState (dispatch s Reset)
     = \<lparr>score = 0, timeLeft = 60, gameStarted = False, gameOver = False,
        difficulty = difficulty (gameState s), level = 1\<rparr>
   \<and> characters (dispatch s Reset) = []"
  by (simp add: dispatch_def resetGame_def runEffects_def levelCompletionEffect_def
        gameOverEffect_def GAME_DURATION_def)

theorem reset_to_idle_witness:
  "score (gameState twoFound) = 200 \<and> timeLeft (gameState twoFound) = 60
   \<and> gameStarted (gameState twoFound) \<and> difficulty (gameState twoFound) = Easy
   \<and> length (characters twoFound) = 20
   \<and> gameState (dispatch twoFound Reset)
       = \<lparr>score = 0, timeLeft = 60, gameStarted = False, gameOver = False,
          difficulty = Easy, level = 1\<rparr>
   \<and> characters (dispatch twoFound Reset) = []"
proof -
  have "score (gameState twoFound) = 200" "timeLeft (gameState twoFound) = 60"
    "gameStarted (gameState twoFound)" "difficulty (gameState twoFound) = Easy"
    "length (characters twoFound) = 20"
    by code_simp+
  with reset_to_idle[of twoFound] show ?thesis by simp
qed

text \<open>
  Claim C10. The win check also needs a non-empty list of characters: in an active
  state whose list is empty it changes nothing, and the round stays active.
\<close>

theorem empty_round_not_won:
  "active s \<Longrightarrow> characters s = [] \<Longrightarrow>
     levelCompletionEffect s = s \<and> runEffects s = s \<and> active (runEffects s)"
  by (simp add: active_def runEffects_def levelCompletionEffect_def gameOverEffect_def
        allGoofysFound_def)

theorem empty_round_not_won_witness:
  "active emptyRound \<and> characters emptyRound = []
   \<and> list_all isFound (filter isGoofy (characters emptyRound))
   \<and> levelCompletionEffect emptyRound = emptyRound \<and> runEffects emptyRound = emptyRound
   \<and> active (runEffects emptyRound)"
proof -
  have a: "active emptyRound" and c: "characters emptyRound = []"
    by (simp_all add: emptyRound_def active_def mount_def)
  from empty_round_not_won[OF a c] a c show ?thesis by simp
qed

section \<open>Scoring of clicks\<close>

lemma clicks_reachable: "reachable s \<Longrightarrow> reachable (dispatchAll s (map Click ks))"
proof (induction ks arbitrary: s)
  case Nil
  then show ?case by (simp add: dispatchAll_def)
next
  case (Cons k ks)
  have "reachable (dispatch s (Click k))" using Cons.prems by (rule reachable_dispatch) simp
  then have "reachable (dispatchAll (dispatch s (Click k)) (map Click ks))" by (rule Cons.IH)
  then show ?case by (simp add: dispatchAll_def)
qed

lemma handleCharacterClick_present:
  assumes "active s" "distinct (map cid (characters s))" "c \<in> set (characters s)"
  shows "handleCharacterClick (cid c) s =
     (if isFound c then s
      else if isGoofy c
        then s\<lparr>characters := map (\<lambda>d. if d = c then c\<lparr>isFound := True\<rparr> else d) (characters s),
               gameState := (gameState s)\<lparr>score := score (gameState s) + 100 * level (gameState s)\<rparr>\<rparr>
        else s\<lparr>gameState := (gameState s)\<lparr>score := max 0 (score (gameState s) - 25)\<rparr>\<rparr>)"
  using assms(1) click_present[OF assms(2,3), of "gameState s"]
  by (simp add: handleCharacterClick_def active_def)

text \<open>
  The scoring of a click when every event is rendered before the next one arrives. In
  an active round a click on a target not yet found adds 100 times the current level
  and marks it found; a click on a character that is not a target and not found
  subtracts 25 but not below 0, and leaves the characters as they were; a click on a
  character already found changes nothing. Every sequence of clicks leaves the score at
  least 0.
\<close>

lemma click_scoring_at_rest:
  "reachable s \<Longrightarrow>
     0 \<le> score (gameState (dispatchAll s (map Click ks)))
   \<and> (active s \<and> c \<in> set (characters s) \<longrightarrow>
        (\<not> isFound c \<and> isGoofy c \<longrightarrow>
           score (gameState (handleCharacterClick (cid c) s))
             = score (gameState s) + 100 * level (gameState s)
           \<and> characters (handleCharacterClick (cid c) s)
             = map (\<lambda>d. if d = c then c\<lparr>isFound := True\<rparr> else d) (characters s))
      \<and> (\<not> isFound c \<and> \<not> isGoofy c \<longrightarrow>
           score (gameState (handleCharacterClick (cid c) s))
             = max 0 (score (gameState s) - 25)
           \<and> characters (handleCharacterClick (cid c) s) = characters s)
      \<and> (isFound c \<longrightarrow> handleCharacterClick (cid c) s = s))"
proof -
  assume r: "reachable s"
  have "roundInv (dispatchAll s (map Click ks))"
    using clicks_reachable[OF r] by (simp add: reachable_inv)
  then have a: "0 \<le> score (gameState (dispatchAll s (map Click ks)))"
    by (simp add: roundInv_def)
  have d: "distinct (map cid (characters s))"
    using reachable_inv[OF r] by (simp add: roundInv_def)
  have b: "active s \<and> c \<in> set (characters s) \<longrightarrow>
        (\<not> isFound c \<and> isGoofy c \<longrightarrow>
           score (gameState (handleCharacterClick (cid c) s))
             = score (gameState s) + 100 * level (gameState s)
           \<and> characters (handleCharacterClick (cid c) s)
             = map (\<lambda>d. if d = c then c\<lparr>isFound := True\<rparr> else d) (characters s))
      \<and> (\<not> isFound c \<and> \<not> isGoofy c \<longrightarrow>
           score (gameState (handleCharacterClick (cid c) s))
             = max 0 (score (gameState s) - 25)
           \<and> characters (handleCharacterClick (cid c) s) = characters s)
      \<and> (isFound c \<longrightarrow> handleCharacterClick (cid c) s = s)"
    using d by (simp add: handleCharacterClick_present)
  from a b show ?thesis by (simp only: simp_thms)
qed

lemma click_scoring_at_rest_example:
  "reachable easyRound \<and> active easyRound \<and> score (gameState easyRound) = 0
   \<and> level (gameState easyRound) = 1
   \<and> goofyCharacter zeroDraws 0 \<in> set (characters easyRound)
   \<and> score (gameState (handleCharacterClick ''goofy-0'' easyRound)) = 100
   \<and> regularCharacter zeroDraws 6 0 \<in> set (characters easyRound)
   \<and> score (gameState (handleCharacterClick ''char-0'' easyRound)) = 0
   \<and> characters (handleCharacterClick ''char-0'' easyRound) = characters easyRound
   \<and> reachable twoFound \<and> active twoFound
   \<and> (goofyCharacter zeroDraws 0)\<lparr>isFound := True\<rparr> \<in> set (characters twoFound)
   \<and> handleCharacterClick ''goofy-0'' twoFound = twoFound
   \<and> 0 \<le> score (gameState (dispatchAll easyRound
            (map Click [''char-0'', ''char-1'', ''goofy-0'', ''char-0''])))"
proof -
  have r1: "reachable easyRound" using run_easyRound by (rule reachable_run_mount)
  have r2: "reachable twoFound" using run_twoFound by (rule reachable_run_mount)
  have f1: "active easyRound" "score (gameState easyRound) = 0" "level (gameState easyRound) = 1"
    "goofyCharacter zeroDraws 0 \<in> set (characters easyRound)"
    "regularCharacter zeroDraws 6 0 \<in> set (characters easyRound)"
    by code_simp+
  have f2: "active twoFound"
    "(goofyCharacter zeroDraws 0)\<lparr>isFound := True\<rparr> \<in> set (characters twoFound)"
    by code_simp+
  have g: "cid (goofyCharacter zeroDraws 0) = ''goofy-0''"
    "isGoofy (goofyCharacter zeroDraws 0)" "\<not> isFound (goofyCharacter zeroDraws 0)"
    "cid (regularCharacter zeroDraws 6 0) = ''char-0''"
    "\<not> isGoofy (regularCharacter zeroDraws 6 0)" "\<not> isFound (regularCharacter zeroDraws 6 0)"
    by (simp_all add: goofyCharacter_def regularCharacter_def decimal.simps)
  from click_scoring_at_rest[OF r1, of "[''char-0'', ''char-1'', ''goofy-0'', ''char-0'']" "goofyCharacter zeroDraws 0"]
    click_scoring_at_rest[OF r1, of "[]" "regularCharacter zeroDraws 6 0"]
    click_scoring_at_rest[OF r2, of "[]" "(goofyCharacter zeroDraws 0)\<lparr>isFound := True\<rparr>"]
    r1 r2 f1 f2 g
  show ?thesis by simp
qed

section \<open>The round that is over\<close>

lemma dispatch_frozen:
  assumes "gameOver (gameState s)" "timeLeft (gameState s) = 0" "isTickOrClick e"
  shows "gameState (dispatch s e) = gameState s"
proof (cases e)
  case (Click k)
  with assms(1) show ?thesis
    by (simp add: dispatch_def handleCharacterClick_def runEffects_over)
next
  case (Tick h)
  have "gameState (intervalTick s) = gameState s"
    using assms(1,2) by (simp add: intervalTick_def Let_def)
  with assms(1) Tick show ?thesis by (simp add: dispatch_def runEffects_over)
qed (use assms(3) in simp_all)

lemma dispatchAll_frozen:
  "gameOver (gameState s) \<Longrightarrow> timeLeft (gameState s) = 0 \<Longrightarrow> list_all isTickOrClick es
   \<Longrightarrow> gameState (dispatchAll s es) = gameState s"
proof (induction es arbitrary: s)
  case Nil
  then show ?case by (simp add: dispatchAll_def)
next
  case (Cons e es)
  have g: "gameState (dispatch s e) = gameState s"
    using Cons.prems by (intro dispatch_frozen) simp_all
  have "gameState (dispatchAll (dispatch s e) es) = gameState (dispatch s e)"
    using Cons.prems g by (intro Cons.IH) simp_all
  with g show ?case by (simp add: dispatchAll_def)
qed

lemma over_time_not_decreased:
  assumes "reachable s" "gameOver (gameState s)" "enabled s e"
  shows "timeLeft (gameState s) \<le> timeLeft (gameState (dispatch s e))"
proof -
  have ri: "roundInv s" and ti: "timerInv s" using assms(1) by (simp_all add: reachable_inv)
  have st: "gameStarted (gameState s)" and le: "timeLeft (gameState s) \<le> 60"
    and lv: "1 \<le> level (gameState s)"
    using ri assms(2) by (simp_all add: roundInv_def GAME_DURATION_def)
  have i: "intervals s = []" using ti assms(2) by (auto simp: timerInv_iff active_def)
  show ?thesis
  proof (cases e)
    case (Start rnd)
    with assms(3) st show ?thesis by simp
  next
    case (NextLevel rnd)
    with le show ?thesis by (simp add: dispatch_start[OF lv] startGame_fields)
  next
    case Reset
    with le show ?thesis
      by (simp add: dispatch_def resetGame_def runEffects_def levelCompletionEffect_def
            gameOverEffect_def GAME_DURATION_def)
  next
    case (SelectDifficulty d)
    with assms(3) st show ?thesis by simp
  next
    case (Click k)
    with assms(2) show ?thesis
      by (simp add: dispatch_def handleCharacterClick_def runEffects_over)
  next
    case (Tick h)
    with assms(3) i show ?thesis by simp
  qed
qed

text \<open>
  The round that is over, when every event is rendered before the next one arrives: no
  interval is live, so no tick can arrive, and no event that can arrive lowers the time
  remaining. With the over flag set and no time remaining, ticks and clicks, in any
  number and order, leave the game state as it is.
\<close>

lemma over_is_frozen_at_rest:
  "(reachable s \<and> gameOver (gameState s) \<longrightarrow>
      intervals s = [] \<and> \<not> enabled s (Tick h)
      \<and> (enabled s e \<longrightarrow> timeLeft (gameState s) \<le> timeLeft (gameState (dispatch s e))))
   \<and> (gameOver (gameState s) \<and> timeLeft (gameState s) = 0 \<and> list_all isTickOrClick es \<longrightarrow>
        score (gameState (dispatchAll s es)) = score (gameState s)
        \<and> gameState (dispatchAll s es) = gameState s)"
proof -
  have a: "reachable s \<and> gameOver (gameState s) \<longrightarrow>
      intervals s = [] \<and> \<not> enabled s (Tick h)
      \<and> (enabled s e \<longrightarrow> timeLeft (gameState s) \<le> timeLeft (gameState (dispatch s e)))"
  proof (intro impI, elim conjE)
    assume r: "reachable s" and o: "gameOver (gameState s)"
    have "timerInv s" using r by (simp add: reachable_inv)
    then have i: "intervals s = []" using o by (auto simp: timerInv_iff active_def)
    from i over_time_not_decreased[OF r o]
    show "intervals s = [] \<and> \<not> enabled s (Tick h)
      \<and> (enabled s e \<longrightarrow> timeLeft (gameState s) \<le> timeLeft (gameState (dispatch s e)))"
      by simp
  qed
  have b: "gameOver (gameState s) \<and> timeLeft (gameState s) = 0 \<and> list_all isTickOrClick es \<longrightarrow>
        score (gameState (dispatchAll s es)) = score (gameState s)
        \<and> gameState (dispatchAll s es) = gameState s"
    by (simp add: dispatchAll_frozen)
  from a b show ?thesis by (simp only: simp_thms)
qed

lemma over_is_frozen_at_rest_example:
  "reachable timedOut \<and> gameOver (gameState timedOut) \<and> timeLeft (gameState timedOut) = 0
   \<and> score (gameState timedOut) = 100
   \<and> intervals timedOut = [] \<and> enabled timedOut Reset
   \<and> timeLeft (gameState timedOut) \<le> timeLeft (gameState (dispatch timedOut Reset))
   \<and> list_all isTickOrClick [Tick 1, Click ''goofy-1'', Click ''char-0'', Tick 1]
   \<and> score (gameState (dispatchAll timedOut [Tick 1, Click ''goofy-1'', Click ''char-0'', Tick 1])) = 100"
proof -
  have r: "reachable timedOut" using run_timedOut by (rule reachable_run_mount)
  have f: "gameOver (gameState timedOut)" "timeLeft (gameState timedOut) = 0"
    "score (gameState timedOut) = 100" "enabled timedOut Reset"
    by code_simp+
  from over_is_frozen_at_rest[of timedOut 1 Reset "[Tick 1, Click ''goofy-1'', Click ''char-0'', Tick 1]"] r f
  show ?thesis by simp
qed

section \<open>The win check\<close>

lemma runEffects_won:
  assumes "active s" "allGoofysFound (characters s)"
  shows "gameState (runEffects s)
           = (gameState s)\<lparr>score := score (gameState s) + timeLeft (gameState s) * 10,
                            level := level (gameState s) + 1, gameOver := True\<rparr>"
    and "intervals (runEffects s) = clearInterval (timerRef s) (intervals s)"
proof -
  have c: "clearInterval (timerRef s) (clearInterval (timerRef s) (intervals s))
          = clearInterval (timerRef s) (intervals s)"
    by (simp add: clearInterval_def split: option.splits)
  show "gameState (runEffects s)
           = (gameState s)\<lparr>score := score (gameState s) + timeLeft (gameState s) * 10,
                            level := level (gameState s) + 1, gameOver := True\<rparr>"
    using assms
    by (simp add: runEffects_def levelCompletionEffect_def gameOverEffect_def Let_def active_def)
  show "intervals (runEffects s) = clearInterval (timerRef s) (intervals s)"
    using assms c
    by (simp add: runEffects_def levelCompletionEffect_def gameOverEffect_def Let_def active_def)
qed

text \<open>
  The win check when every event is rendered before the next one arrives: an event that
  leaves a round active with every target found is followed, in the same dispatch, by
  the end of the round, with the over flag set, no interval live, the time remaining
  unchanged and positive, and the score increased by 10 times the seconds remaining. On
  the easy tier at level 1, with 20 characters and 3 targets, finding the 3 targets with
  45 seconds left then ends with the score \<open>3 * 100 * 1 + 45 * 10 = 750\<close>, whatever
  the random draws and the stored high score.
\<close>

lemma win_check_at_rest:
  "(reachable s \<and> enabled s e \<and> active (handle s e)
      \<and> list_all isFound (filter isGoofy (characters (handle s e))) \<longrightarrow>
        gameOver (gameState (dispatch s e))
      \<and> intervals (dispatch s e) = []
      \<and> timeLeft (gameState (dispatch s e)) = timeLeft (gameState (handle s e))
      \<and> 0 < timeLeft (gameState (dispatch s e))
      \<and> score (gameState (dispatch s e))
          = score (gameState (handle s e)) + 10 * timeLeft (gameState (handle s e)))
   \<and> (\<exists>s'. run (mount stored)
              ([SelectDifficulty Easy, Start rnd] @ replicate 15 (Tick 1) @ threeTargets) = Some s'
         \<and> length (characters s') = 20 \<and> length (filter isGoofy (characters s')) = 3
         \<and> gameOver (gameState s') \<and> intervals s' = [] \<and> timeLeft (gameState s') = 45
         \<and> score (gameState s') = 3 * 100 * 1 + 45 * 10 \<and> score (gameState s') = 750)"
proof -
  have a: "reachable s \<and> enabled s e \<and> active (handle s e)
      \<and> list_all isFound (filter isGoofy (characters (handle s e))) \<longrightarrow>
        gameOver (gameState (dispatch s e))
      \<and> intervals (dispatch s e) = []
      \<and> timeLeft (gameState (dispatch s e)) = timeLeft (gameState (handle s e))
      \<and> 0 < timeLeft (gameState (dispatch s e))
      \<and> score (gameState (dispatch s e))
          = score (gameState (handle s e)) + 10 * timeLeft (gameState (handle s e))"
  proof (intro impI, elim conjE)
    assume r: "reachable s" and en: "enabled s e" and ac: "active (handle s e)"
      and fd: "list_all isFound (filter isGoofy (characters (handle s e)))"
    have "roundInv s" "timerInv s" using r by (simp_all add: reachable_inv)
    then have ri: "roundInv (handle s e)" and ti: "timerInv (handle s e)"
      using en by (simp_all add: inv_handle)
    have ne: "characters (handle s e) \<noteq> []" and t: "1 \<le> timeLeft (gameState (handle s e))"
      using ri ac by (simp_all add: roundInv_def active_def)
    have w: "allGoofysFound (characters (handle s e))"
      using ne fd by (simp add: allGoofysFound_def)
    show "gameOver (gameState (dispatch s e))
      \<and> intervals (dispatch s e) = []
      \<and> timeLeft (gameState (dispatch s e)) = timeLeft (gameState (handle s e))
      \<and> 0 < timeLeft (gameState (dispatch s e))
      \<and> score (gameState (dispatch s e))
          = score (gameState (handle s e)) + 10 * timeLeft (gameState (handle s e))"
      using runEffects_won[OF ac w] clearInterval_timerInv[OF ti] t
      by (simp add: dispatch_def)
  qed
  from easy_round_750[of stored rnd] obtain s' where
    "run (mount stored)
        ([SelectDifficulty Easy, Start rnd] @ replicate 15 (Tick 1) @ threeTargets) = Some s'"
    "length (characters s') = 20" "length (filter isGoofy (characters s')) = 3"
    "gameOver (gameState s')" "intervals s' = []" "timeLeft (gameState s') = 45"
    "score (gameState s') = 750"
    by blast
  then have b: "\<exists>s'. run (mount stored)
              ([SelectDifficulty Easy, Start rnd] @ replicate 15 (Tick 1) @ threeTargets) = Some s'
         \<and> length (characters s') = 20 \<and> length (filter isGoofy (characters s')) = 3
         \<and> gameOver (gameState s') \<and> intervals s' = [] \<and> timeLeft (gameState s') = 45
         \<and> score (gameState s') = 3 * 100 * 1 + 45 * 10 \<and> score (gameState s') = 750"
    by simp
  from a b show ?thesis by (simp only: simp_thms)
qed

lemma win_check_at_rest_example:
  "reachable twoFound \<and> enabled twoFound (Click ''goofy-2'')
   \<and> active (handle twoFound (Click ''goofy-2''))
   \<and> list_all isFound (filter isGoofy (characters (handle twoFound (Click ''goofy-2''))))
   \<and> score (gameState (handle twoFound (Click ''goofy-2''))) = 300
   \<and> timeLeft (gameState (handle twoFound (Click ''goofy-2''))) = 60
   \<and> gameOver (gameState (dispatch twoFound (Click ''goofy-2'')))
   \<and> intervals (dispatch twoFound (Click ''goofy-2'')) = []
   \<and> score (gameState (dispatch twoFound (Click ''goofy-2''))) = 900"
proof -
  have r: "reachable twoFound" using run_twoFound by (rule reachable_run_mount)
  have f: "enabled twoFound (Click ''goofy-2'')"
    "active (handle twoFound (Click ''goofy-2''))"
    "list_all isFound (filter isGoofy (characters (handle twoFound (Click ''goofy-2''))))"
    "score (gameState (handle twoFound (Click ''goofy-2''))) = 300"
    "timeLeft (gameState (handle twoFound (Click ''goofy-2''))) = 60"
    by code_simp+
  from win_check_at_rest[of twoFound "Click ''goofy-2''" None zeroDraws] r f
  show ?thesis by simp
qed

section \<open>The level counter\<close>






section \<open>Persisting the high score\<close>

text \<open>
  On the win path the store ends with the larger of the stored value and the final
  score, provided the value read at mount was a number.
\<close>

lemma win_persists_max:
  assumes "active s" "allGoofysFound (characters s)" "highScore s = Num v"
  shows "highScore (runEffects s)
           = Num (max v (score (gameState s) + timeLeft (gameState s) * 10))"
    and "localStorage (runEffects s)
           = (if v < score (gameState s) + timeLeft (gameState s) * 10
              then Some (toString (score (gameState s) + timeLeft (gameState s) * 10))
              else localStorage s)"
  using assms
  by (simp_all add: runEffects_def levelCompletionEffect_def gameOverEffect_def Let_def
        active_def)

text \<open>The tick that ends a round by timeout writes neither the high score nor the store.\<close>

lemma timeout_persists_nothing:
  assumes "timeLeft (gameState s) \<le> 1"
  shows "gameOver (gameState (dispatch s (Tick h)))"
    and "timeLeft (gameState (dispatch s (Tick h))) = 0"
    and "score (gameState (dispatch s (Tick h))) = score (gameState s)"
    and "highScore (dispatch s (Tick h)) = highScore s"
    and "localStorage (dispatch s (Tick h)) = localStorage s"
  using assms
  by (simp_all add: dispatch_def intervalTick_def runEffects_def levelCompletionEffect_def
        gameOverEffect_def Let_def)

text \<open>
  Claim C1, at the input where the code departs from it. A round of the easy tier with
  nothing stored: one target is found, for 100 points, and the timer runs out. The
  round is over and lost with the final score 100, above the high score 0, and still
  the high score is 0 and nothing is stored. The same round won stores its score.
\<close>

theorem lost_round_not_persisted:
  "run (mount None) (easyStart @ [Click ''goofy-0''] @ replicate 60 (Tick 1)) = Some timedOut
   \<and> gameOver (gameState timedOut) \<and> timeLeft (gameState timedOut) = 0
   \<and> score (gameState timedOut) = 100
   \<and> highScore timedOut = Num 0 \<and> localStorage timedOut = None
   \<and> run (mount None) (easyStart @ threeTargets) = Some wonRound
   \<and> score (gameState wonRound) = 900
   \<and> highScore wonRound = Num 900 \<and> localStorage wonRound = Some ''900''"
  by code_simp

text \<open>
  Claim C4, at the input where the code departs from it. An absent key and the empty
  string are read as 0, but the stored string \<^verbatim>\<open>abc\<close> is read as \<^verbatim>\<open>NaN\<close>; no
  score exceeds \<^verbatim>\<open>NaN\<close>, so a round won with 900 points leaves \<^verbatim>\<open>abc\<close> in the
  store and \<^verbatim>\<open>NaN\<close> as the high score.
\<close>

theorem malformed_high_score_is_NaN:
  "highScore (mount None) = Num 0 \<and> highScore (mount (Some '''')) = Num 0
   \<and> highScore (mount (Some ''750'')) = Num 750
   \<and> parseInt (orZero (Some ''abc'')) = NaN
   \<and> highScore (mount (Some ''abc'')) = NaN
   \<and> \<not> exceeds 900 (highScore (mount (Some ''abc'')))
   \<and> map_option (score \<circ> gameState) (run (mount (Some ''abc'')) (easyStart @ threeTargets))
       = Some 900
   \<and> map_option highScore (run (mount (Some ''abc'')) (easyStart @ threeTargets)) = Some NaN
   \<and> map_option localStorage (run (mount (Some ''abc'')) (easyStart @ threeTargets))
       = Some (Some ''abc'')"
  by code_simp

section \<open>The invariants hold in every reachable session\<close>

lemma replay_deferred: "list_all queueable q \<Longrightarrow> replay False q s = s"
proof (induction q arbitrary: s)
  case Nil
  then show ?case by simp
next
  case (Cons x q)
  obtain l u where x: "x = (l, u)" by (cases x)
  from Cons.prems x have "l = DefaultLane" by (cases u) simp_all
  with Cons x show ?case by simp
qed

lemma workInProgress_sync:
  "list_all queueable (pending ss) \<Longrightarrow>
     workInProgress False ss = (rendered ss)\<lparr>gameState := base ss\<rparr>"
  by (simp add: workInProgress_def replay_deferred)

lemma atRest_simps [simp]:
  "rendered (atRest s) = s" "base (atRest s) = gameState s" "pending (atRest s) = []"
  by (simp_all add: atRest_def)

lemma atRest_eq:
  "pending ss = [] \<Longrightarrow> base ss = gameState (rendered ss) \<Longrightarrow> ss = atRest (rendered ss)"
  by (simp add: atRest_def)

lemma sessionInv_atRest: "sessionInv (atRest s) \<longleftrightarrow> roundInv s \<and> timerInv s"
  by (auto simp: sessionInv_def gameStatePending_def roundInv_def)

lemma click_frame_eq:
  "snd (clickCharacters k cs st) = st\<lparr>score := score (snd (clickCharacters k cs st))\<rparr>"
  by (rule GameState.equality) (simp_all add: click_frame)

lemma intervalTick_inv:
  assumes "roundInv s" "timerInv s" "gameStarted (gameState s)"
  shows "roundInv (intervalTick s) \<and> timerInv (intervalTick s)
         \<and> gameStarted (gameState (intervalTick s))"
  using assms clearInterval_timerInv[OF assms(2)]
  by (auto simp: roundInv_def timerInv_iff intervalTick_def Let_def active_def)

lemma intervalTick_intervals: "intervals s = [] \<Longrightarrow> intervals (intervalTick s) = []"
  by (simp add: intervalTick_def Let_def clearInterval_def split: option.splits)

lemma replay_inv:
  "roundInv s \<Longrightarrow> timerInv s \<Longrightarrow> gameStarted (gameState s) \<Longrightarrow> list_all queueable q
   \<Longrightarrow> (list_ex (\<lambda>(l, u). isWinUpdate u) q \<longrightarrow> intervals s = [])
   \<Longrightarrow> roundInv (replay True q s) \<and> timerInv (replay True q s)"
proof (induction q arbitrary: s)
  case Nil
  then show ?case by simp
next
  case (Cons x q)
  obtain l u where x: "x = (l, u)" by (cases x)
  have q: "list_all queueable q" using Cons.prems(4) by simp
  have "roundInv (applyUpdate u s) \<and> timerInv (applyUpdate u s)
        \<and> gameStarted (gameState (applyUpdate u s))
        \<and> (list_ex (\<lambda>(l, u). isWinUpdate u) q \<longrightarrow> intervals (applyUpdate u s) = [])"
  proof (cases u)
    case TickUpdate
    with Cons.prems x intervalTick_inv[of s] intervalTick_intervals[of s]
    show ?thesis by simp
  next
    case (WinUpdate n)
    with Cons.prems x show ?thesis
      by (simp add: roundInv_def timerInv_iff active_def)
  next
    case (HighScoreUpdate n)
    with Cons.prems x show ?thesis
      by (simp add: roundInv_def timerInv_iff active_def)
  qed (use Cons.prems(4) x in simp_all)
  with Cons.IH[of "applyUpdate u s"] q x show ?case by simp
qed


lemma levelCompletionQueued_inv:
  assumes "sessionInv ss"
  shows "sessionInv (levelCompletionQueued ss)"
proof (cases "active (rendered ss) \<and> allGoofysFound (characters (rendered ss))")
  case False
  then have "levelCompletionQueued ss = ss"
    by (auto simp: levelCompletionQueued_def Let_def active_def)
  with assms show ?thesis by simp
next
  case True
  have t: "0 \<le> score (gameState (rendered ss)) + timeLeft (gameState (rendered ss)) * 10"
    using assms by (simp add: sessionInv_def roundInv_def)
  have c: "clearInterval (timerRef (rendered ss)) (intervals (rendered ss)) = []"
    using assms by (simp add: sessionInv_def clearInterval_timerInv)
  show ?thesis
    using assms True t c
    by (simp add: levelCompletionQueued_def Let_def sessionInv_def roundInv_def timerInv_iff
          active_def gameStatePending_def)
qed

lemma afterCommit_inv:
  assumes "sessionInv ss"
  shows "sessionInv (afterCommit ss)"
proof -
  let ?ss1 = "levelCompletionQueued ss"
  have i: "sessionInv ?ss1" using assms by (rule levelCompletionQueued_inv)
  then have r: "roundInv (rendered ?ss1)" and t: "timerInv (rendered ?ss1)"
    by (simp_all add: sessionInv_def)
  have g: "roundInv (gameOverEffect (rendered ?ss1)) \<and> timerInv (gameOverEffect (rendered ?ss1))"
    using r t by (rule inv_gameOverEffect)
  have f: "gameState (gameOverEffect (rendered ?ss1)) = gameState (rendered ?ss1)"
    "intervals (rendered ?ss1) = [] \<longrightarrow> intervals (gameOverEffect (rendered ?ss1)) = []"
    by (simp_all add: gameOverEffect_def clearInterval_def split: option.splits)
  show ?thesis
    using i g f by (simp add: afterCommit_def Let_def sessionInv_def active_def)
qed


lemma startGameS_atRest: "startGameS rnd (atRest s) = afterCommit (atRest (startGame rnd s))"
proof -
  have "renderSync (setGameStateSync StartUpdate
          ((atRest s)\<lparr>rendered := setInterval
             (s\<lparr>characters := generateCharacters (difficulty (gameState s))
                                 (level (gameState s)) rnd,
                 scopeVisible := True\<rparr>)\<rparr>))
        = atRest (startGame rnd s)"
    by (rule session.equality; (rule component.equality)?)
       (simp_all add: startGame_def setGameStateSync_def renderSync_def workInProgress_def
          setInterval_def gameStatePending_def atRest_def Let_def)
  then show ?thesis by (simp add: startGameS_def Let_def)
qed

lemma resetGameS_atRest: "resetGameS (atRest s) = afterCommit (atRest (resetGame s))"
proof -
  have "renderSync (setGameStateSync (ResetUpdate (difficulty (gameState s)))
          ((atRest s)\<lparr>rendered := s\<lparr>intervals := clearInterval (timerRef s) (intervals s),
                                     characters := [],
                                     scopeVisible := False\<rparr>\<rparr>))
        = atRest (resetGame s)"
    by (rule session.equality; (rule component.equality)?)
       (simp_all add: resetGame_def setGameStateSync_def renderSync_def workInProgress_def
          gameStatePending_def atRest_def Let_def)
  then show ?thesis by (simp add: resetGameS_def Let_def)
qed

lemma selectDifficultyS_atRest:
  "selectDifficultyS d (atRest s) = afterCommit (atRest (selectDifficulty d s))"
proof -
  have "renderSync (setGameStateSync (SelectUpdate d) (atRest s))
        = atRest (selectDifficulty d s)"
    by (rule session.equality; (rule component.equality)?)
       (simp_all add: selectDifficulty_def setGameStateSync_def renderSync_def
          workInProgress_def gameStatePending_def atRest_def Let_def)
  then show ?thesis by (simp add: selectDifficultyS_def)
qed

lemma handleCharacterClickS_atRest:
  "handleCharacterClickS k (atRest s) =
     (if \<not> gameStarted (gameState s) \<or> gameOver (gameState s) then atRest s
      else afterCommit (atRest (handleCharacterClick k s)))"
  by (simp add: handleCharacterClickS_def handleCharacterClick_def workInProgress_def
        gameStatePending_def atRest_def Let_def split_beta)

lemma sessionInv_idle:
  assumes "sessionInv ss" "\<not> active (rendered ss)"
  shows "ss = atRest (rendered ss)"
proof -
  have p: "pending ss = []" using assms by (auto simp: sessionInv_def)
  then have "base ss = gameState (rendered ss)"
    using assms(1) by (simp add: sessionInv_def gameStatePending_def)
  with p show ?thesis by (rule atRest_eq)
qed

lemma intervalFires_inv:
  assumes "sessionInv ss" "h \<in> set (intervals (rendered ss))"
  shows "sessionInv (intervalFires ss)"
proof -
  have a: "active (rendered ss)" "intervals (rendered ss) \<noteq> []"
    using assms by (auto simp: sessionInv_def timerInv_iff)
  with assms(1) show ?thesis
    by (auto simp: intervalFires_def sessionInv_def gameStatePending_def)
qed

lemma renderQueued_inv:
  assumes "sessionInv ss" "pending ss \<noteq> []"
  shows "sessionInv (renderQueued ss)"
proof -
  let ?s0 = "(rendered ss)\<lparr>gameState := base ss\<rparr>"
  have a: "active (rendered ss)" using assms by (simp add: sessionInv_def)
  have b: "base ss = (gameState (rendered ss))\<lparr>score := score (base ss)\<rparr>"
    and sc: "0 \<le> score (base ss)"
    using assms(1) by (simp_all add: sessionInv_def)
  have f: "level (base ss) = level (gameState (rendered ss))"
    "timeLeft (base ss) = timeLeft (gameState (rendered ss))"
    "gameStarted (base ss) = gameStarted (gameState (rendered ss))"
    "gameOver (base ss) = gameOver (gameState (rendered ss))"
    by (subst b, simp)+
  have r0: "roundInv ?s0" and t0: "timerInv ?s0" and g0: "gameStarted (gameState ?s0)"
    using assms(1) a f sc by (simp_all add: sessionInv_def roundInv_def timerInv_iff active_def)
  have w: "list_ex (\<lambda>(l, u). isWinUpdate u) (pending ss) \<longrightarrow> intervals ?s0 = []"
    using assms(1) by (simp add: sessionInv_def)
  have q: "list_all queueable (pending ss)" using assms(1) by (simp add: sessionInv_def)
  have "roundInv (workInProgress True ss) \<and> timerInv (workInProgress True ss)"
    unfolding workInProgress_def using r0 t0 g0 q w by (rule replay_inv)
  then have "sessionInv (atRest (workInProgress True ss))" by (simp add: sessionInv_atRest)
  then have "sessionInv (afterCommit (atRest (workInProgress True ss)))" by (rule afterCommit_inv)
  then show ?thesis by (simp add: renderQueued_def Let_def atRest_def)
qed

lemma handleCharacterClickS_inv:
  assumes "sessionInv ss"
  shows "sessionInv (handleCharacterClickS k ss)"
proof (cases "\<not> gameStarted (gameState (rendered ss)) \<or> gameOver (gameState (rendered ss))")
  case True
  with assms show ?thesis by (simp add: handleCharacterClickS_def)
next
  case False
  let ?r = "clickCharacters k (characters (rendered ss)) (base ss)"
  let ?ss1 = "ss\<lparr>rendered := (rendered ss)\<lparr>characters := fst ?r, gameState := snd ?r\<rparr>,
                   base := (if gameStatePending (pending ss) then base ss else snd ?r)\<rparr>"
  have q: "list_all queueable (pending ss)" using assms by (simp add: sessionInv_def)
  have h: "handleCharacterClickS k ss = afterCommit ?ss1"
    using False by (simp add: handleCharacterClickS_def workInProgress_sync[OF q] split_beta)
  have b: "base ss = (gameState (rendered ss))\<lparr>score := score (base ss)\<rparr>"
    and sc: "0 \<le> score (base ss)"
    using assms by (simp_all add: sessionInv_def)
  have f: "level (base ss) = level (gameState (rendered ss))"
    "timeLeft (base ss) = timeLeft (gameState (rendered ss))"
    "gameStarted (base ss) = gameStarted (gameState (rendered ss))"
    "gameOver (base ss) = gameOver (gameState (rendered ss))"
    "difficulty (base ss) = difficulty (gameState (rendered ss))"
    by (subst b, simp)+
  have cf: "level (snd ?r) = level (base ss)" "timeLeft (snd ?r) = timeLeft (base ss)"
    "gameStarted (snd ?r) = gameStarted (base ss)" "gameOver (snd ?r) = gameOver (base ss)"
    "difficulty (snd ?r) = difficulty (base ss)"
    using click_frame[of k "characters (rendered ss)" "base ss"] by simp_all
  have lv: "0 \<le> level (base ss)" using assms f by (simp add: sessionInv_def roundInv_def)
  have ns: "0 \<le> score (snd ?r)" using sc lv by (rule click_score_nonneg)
  have ids: "map cid (fst ?r) = map cid (characters (rendered ss))" by (rule click_cids)
  have ne: "fst ?r = [] \<longleftrightarrow> characters (rendered ss) = []" by (rule click_nonempty)
  have e1: "snd ?r = (snd ?r)\<lparr>score := score (snd ?r)\<rparr>" by simp
  have e2: "base ss = (snd ?r)\<lparr>score := score (base ss)\<rparr>"
    by (rule GameState.equality) (simp_all add: cf)
  have "sessionInv ?ss1"
  proof (cases "gameStatePending (pending ss)")
    case True
    with assms f cf ns ids ne e2 sc show ?thesis
      by (simp add: sessionInv_def roundInv_def timerInv_iff active_def)
  next
    case np: False
    then have "base ss = gameState (rendered ss)" using assms by (simp add: sessionInv_def)
    with np assms f cf ns ids ne show ?thesis
      by (simp add: sessionInv_def roundInv_def timerInv_iff active_def)
  qed
  then show ?thesis unfolding h by (rule afterCommit_inv)
qed

lemma react_inv:
  assumes "sessionInv ss" "enabledS ss x"
  shows "sessionInv (react ss x)"
proof (cases x)
  case Renders
  with assms show ?thesis by (simp add: renderQueued_inv)
next
  case (Arrives e)
  have rt: "roundInv (rendered ss)" "timerInv (rendered ss)"
    using assms(1) by (simp_all add: sessionInv_def)
  show ?thesis
  proof (cases e)
    case (Start rnd)
    with assms Arrives have "ss = atRest (rendered ss)"
      by (intro sessionInv_idle) (simp_all add: active_def)
    moreover have "sessionInv (afterCommit (atRest (startGame rnd (rendered ss))))"
      using rt assms(2) Arrives Start
      by (intro afterCommit_inv) (simp add: sessionInv_atRest inv_startGame active_def)
    ultimately show ?thesis using Arrives Start startGameS_atRest[of rnd "rendered ss"] by simp
  next
    case (NextLevel rnd)
    with assms Arrives have "ss = atRest (rendered ss)"
      by (intro sessionInv_idle) (simp_all add: active_def)
    moreover have "sessionInv (afterCommit (atRest (startGame rnd (rendered ss))))"
      using rt assms(2) Arrives NextLevel
      by (intro afterCommit_inv) (simp add: sessionInv_atRest inv_startGame active_def)
    ultimately show ?thesis
      using Arrives NextLevel startGameS_atRest[of rnd "rendered ss"] by simp
  next
    case Reset
    with assms Arrives have "ss = atRest (rendered ss)"
      by (intro sessionInv_idle) (simp_all add: active_def)
    moreover have "sessionInv (afterCommit (atRest (resetGame (rendered ss))))"
      using rt by (intro afterCommit_inv) (simp add: sessionInv_atRest inv_resetGame)
    ultimately show ?thesis using Arrives Reset resetGameS_atRest[of "rendered ss"] by simp
  next
    case (SelectDifficulty d)
    with assms Arrives have "ss = atRest (rendered ss)"
      by (intro sessionInv_idle) (simp_all add: active_def)
    moreover have "sessionInv (afterCommit (atRest (selectDifficulty d (rendered ss))))"
      using rt by (intro afterCommit_inv) (simp add: sessionInv_atRest inv_selectDifficulty)
    ultimately show ?thesis
      using Arrives SelectDifficulty selectDifficultyS_atRest[of d "rendered ss"] by simp
  next
    case (Click k)
    with assms(1) Arrives show ?thesis by (simp add: handleCharacterClickS_inv)
  next
    case (Tick h)
    with assms Arrives show ?thesis using intervalFires_inv[of ss h] by simp
  qed
qed

lemma reachableS_inv: "reachableS ss \<Longrightarrow> sessionInv ss"
proof (induction rule: reachableS.induct)
  case (reachableS_mount stored)
  show ?case using inv_mount[of stored] by (simp add: sessionInv_atRest)
next
  case (reachableS_react ss x)
  then show ?case by (simp add: react_inv)
qed

section \<open>One event at a time is the session at rest\<close>

text \<open>
  The effects after a commit with nothing queued, and the render of what they queue,
  give what \<open>runEffects\<close> gives.
\<close>

lemma settle_afterCommit: "settle (afterCommit (atRest s)) = atRest (runEffects s)"
proof (cases "active s \<and> allGoofysFound (characters s)")
  case False
  then have "afterCommit (atRest s) = atRest (gameOverEffect s)"
    by (auto simp: afterCommit_def levelCompletionQueued_def Let_def active_def atRest_def
          gameOverEffect_def)
  moreover have "runEffects s = gameOverEffect s"
    using False by (auto simp: runEffects_def levelCompletionEffect_def active_def)
  ultimately show ?thesis by (simp add: settle_def)
next
  case True
  then have g: "gameStarted (gameState s)" "\<not> gameOver (gameState s)"
    "allGoofysFound (characters s)" by (simp_all add: active_def)
  have c: "clearInterval (timerRef s) (clearInterval (timerRef s) (intervals s))
          = clearInterval (timerRef s) (intervals s)"
    by (simp add: clearInterval_def split: option.splits)
  show ?thesis
    by (rule session.equality; (rule component.equality)?)
       (simp_all add: g c settle_def afterCommit_def levelCompletionQueued_def renderQueued_def
          workInProgress_def runEffects_def levelCompletionEffect_def gameOverEffect_def
          atRest_def Let_def)
qed

lemma settle_atRest: "settle (atRest s) = atRest s"
  by (simp add: settle_def)

text \<open>
  An event that arrives when nothing is queued, followed by the renders it causes:
  the session is at rest again and shows what \<open>dispatch\<close> says. (A click that the
  guard refuses causes no render and no effect; \<open>dispatch\<close> agrees on the states the
  effects leave as they are, which all reachable states are.)
\<close>

lemma react_atRest:
  assumes "runEffects s = s"
  shows "settle (settle (react (atRest s) (Arrives e))) = atRest (dispatch s e)"
proof (cases e)
  case (Start rnd)
  then show ?thesis
    by (simp add: startGameS_atRest settle_afterCommit settle_atRest dispatch_def)
next
  case (NextLevel rnd)
  then show ?thesis
    by (simp add: startGameS_atRest settle_afterCommit settle_atRest dispatch_def nextLevel_eq)
next
  case Reset
  then show ?thesis
    by (simp add: resetGameS_atRest settle_afterCommit settle_atRest dispatch_def)
next
  case (SelectDifficulty d)
  then show ?thesis
    by (simp add: selectDifficultyS_atRest settle_afterCommit settle_atRest dispatch_def)
next
  case (Click k)
  show ?thesis
  proof (cases "\<not> gameStarted (gameState s) \<or> gameOver (gameState s)")
    case True
    then have "handleCharacterClick k s = s" by (simp add: handleCharacterClick_def)
    with True Click assms show ?thesis
      by (simp add: handleCharacterClickS_atRest settle_atRest dispatch_def)
  next
    case False
    with Click show ?thesis
      by (simp add: handleCharacterClickS_atRest settle_afterCommit settle_atRest dispatch_def)
  qed
next
  case (Tick h)
  have "settle (intervalFires (atRest s)) = afterCommit (atRest (intervalTick s))"
    by (simp add: settle_def intervalFires_def renderQueued_def workInProgress_def
          atRest_def Let_def)
  with Tick show ?thesis by (simp add: settle_afterCommit dispatch_def)
qed

lemma reachable_stable: "reachable s \<Longrightarrow> runEffects s = s"
proof (induction rule: reachable.induct)
  case (reachable_mount stored)
  show ?case
    by (simp add: runEffects_def levelCompletionEffect_def gameOverEffect_def mount_def)
next
  case (reachable_dispatch s e)
  show ?case by (simp add: dispatch_def runEffects_idem)
qed

lemma settle_reachableS: "reachableS ss \<Longrightarrow> reachableS (settle ss)"
  using reachableS_react[of ss Renders] by (simp add: settle_def)

text \<open>Every state the events reach one at a time is shown by a reachable session at rest.\<close>

lemma reachable_atRest: "reachable s \<Longrightarrow> reachableS (atRest s)"
proof (induction rule: reachable.induct)
  case (reachable_mount stored)
  show ?case by (rule reachableS_mount)
next
  case (reachable_dispatch s e)
  have en: "enabledS (atRest s) (Arrives e)" using reachable_dispatch.hyps(2) by simp
  have "reachableS (react (atRest s) (Arrives e))"
    using reachable_dispatch.IH en by (rule reachableS_react)
  then have "reachableS (settle (settle (react (atRest s) (Arrives e))))"
    by (intro settle_reachableS)
  then show ?case
    using react_atRest[OF reachable_stable[OF reachable_dispatch.hyps(1)], of e] by simp
qed

section \<open>The interval timer of a session\<close>

lemma runS_reachable: "reachableS ss \<Longrightarrow> runS ss xs = Some ss' \<Longrightarrow> reachableS ss'"
  by (induction xs arbitrary: ss) (auto split: if_splits intro: reachableS_react)

lemma clearInterval_current:
  "liveIsCurrent s \<Longrightarrow> clearInterval (timerRef s) (intervals s) = []"
proof -
  assume "liveIsCurrent s"
  then have a: "\<forall>h \<in> set (intervals s). timerRef s = Some h"
    by (simp add: liveIsCurrent_def list_all_iff)
  show ?thesis
  proof (cases "intervals s")
    case Nil
    then show ?thesis by (simp add: clearInterval_def split: option.splits)
  next
    case (Cons h hs)
    with a have t: "timerRef s = Some h" by simp
    with a have "\<forall>k \<in> set (intervals s). k = h" by simp
    then have "removeAll h (intervals s) = []"
      by (induction "intervals s") (simp_all add: removeAll_id filter_empty_conv removeAll_filter_not_eq)
    with t show ?thesis by (simp add: clearInterval_def)
  qed
qed

lemma afterCommit_no_interval:
  "intervals (rendered ss) = [] \<Longrightarrow> intervals (rendered (afterCommit ss)) = []"
  by (simp add: afterCommit_def levelCompletionQueued_def gameOverEffect_def Let_def
        clearInterval_def split: option.splits)

lemma startGameS_timer:
  assumes "sessionInv ss" "\<not> gameStarted (gameState (rendered ss))
           \<or> gameOver (gameState (rendered ss))"
  shows "intervals (rendered ss) = []" "pending ss = []"
    "intervals (rendered (startGameS rnd ss)) = [nextHandle (rendered ss)]"
    "timerRef (rendered (startGameS rnd ss)) = Some (nextHandle (rendered ss))"
proof -
  have na: "\<not> active (rendered ss)" using assms(2) by (auto simp: active_def)
  have r: "roundInv (rendered ss)" and t: "timerInv (rendered ss)"
    using assms(1) by (simp_all add: sessionInv_def)
  show i: "intervals (rendered ss) = []" using t na by (rule timerInv_idle)
  show "pending ss = []" using assms(1) na by (auto simp: sessionInv_def)
  have e: "ss = atRest (rendered ss)" using assms(1) na by (rule sessionInv_idle)
  have lv: "1 \<le> level (gameState (rendered ss))" using r by (simp add: roundInv_def)
  have nw: "\<not> allGoofysFound (characters (startGame rnd (rendered ss)))"
    using generateCharacters_not_won[OF lv] by (simp add: startGame_fields)
  have "afterCommit (atRest (startGame rnd (rendered ss))) = atRest (startGame rnd (rendered ss))"
    using nw
    by (simp add: afterCommit_def levelCompletionQueued_def gameOverEffect_def Let_def
          startGame_fields atRest_def)
  then have "startGameS rnd ss = atRest (startGame rnd (rendered ss))"
    using startGameS_atRest[of rnd "rendered ss"] e by simp
  then show "intervals (rendered (startGameS rnd ss)) = [nextHandle (rendered ss)]"
    "timerRef (rendered (startGameS rnd ss)) = Some (nextHandle (rendered ss))"
    using i by (simp_all add: startGame_fields)
qed

text \<open>
  Claim C2. At most one interval is live in a session, with the updates queued as
  React queues them: in every reachable session there is at most one live interval, it
  is the one \<open>timerRef\<close> holds and the last render shows an active round; when the
  round shown is not active no interval is live and nothing is queued; and when Start
  or Next Level can be pressed, the only interval live after the press is the one just
  installed. The code that leaves the active state does the cancelling: in every state
  whose live intervals are the one \<open>timerRef\<close> holds, reset cancels it, the tick that
  times the round out cancels it and sets the over flag, the win check cancels it, and
  so does the game-over effect; and from a reachable session at rest in the last
  second, the firing of the interval and its render leave no interval live.
\<close>

theorem single_live_interval:
  "(reachableS ss \<longrightarrow>
        length (intervals (rendered ss)) \<le> 1
      \<and> (\<forall>h \<in> set (intervals (rendered ss)).
            active (rendered ss) \<and> timerRef (rendered ss) = Some h)
      \<and> (\<not> active (rendered ss) \<longrightarrow> intervals (rendered ss) = [] \<and> pending ss = [])
      \<and> (enabledS ss (Arrives (Start rnd)) \<longrightarrow>
            intervals (rendered ss) = [] \<and> pending ss = []
          \<and> intervals (rendered (react ss (Arrives (Start rnd)))) = [nextHandle (rendered ss)]
          \<and> timerRef (rendered (react ss (Arrives (Start rnd))))
              = Some (nextHandle (rendered ss)))
      \<and> (enabledS ss (Arrives (NextLevel rnd)) \<longrightarrow>
            intervals (rendered ss) = [] \<and> pending ss = []
          \<and> intervals (rendered (react ss (Arrives (NextLevel rnd))))
              = [nextHandle (rendered ss)]
          \<and> timerRef (rendered (react ss (Arrives (NextLevel rnd))))
              = Some (nextHandle (rendered ss)))
      \<and> (pending ss = [] \<and> enabledS ss (Arrives (Tick h))
          \<and> timeLeft (gameState (rendered ss)) \<le> 1 \<longrightarrow>
            intervals (rendered (react (react ss (Arrives (Tick h))) Renders)) = []
          \<and> gameOver (gameState (rendered (react (react ss (Arrives (Tick h))) Renders)))))
   \<and> (liveIsCurrent s \<longrightarrow>
        intervals (resetGame s) = []
      \<and> intervals (rendered (resetGameS (atRest s))) = []
      \<and> (timeLeft (gameState s) \<le> 1 \<longrightarrow>
            intervals (intervalTick s) = [] \<and> gameOver (gameState (intervalTick s)))
      \<and> (active s \<and> allGoofysFound (characters s) \<longrightarrow>
            intervals (levelCompletionEffect s) = []
          \<and> intervals (rendered (levelCompletionQueued (atRest s))) = [])
      \<and> (gameOver (gameState s) \<longrightarrow> intervals (gameOverEffect s) = []))"
proof -
  have a: "reachableS ss \<longrightarrow>
        length (intervals (rendered ss)) \<le> 1
      \<and> (\<forall>h \<in> set (intervals (rendered ss)).
            active (rendered ss) \<and> timerRef (rendered ss) = Some h)
      \<and> (\<not> active (rendered ss) \<longrightarrow> intervals (rendered ss) = [] \<and> pending ss = [])
      \<and> (enabledS ss (Arrives (Start rnd)) \<longrightarrow>
            intervals (rendered ss) = [] \<and> pending ss = []
          \<and> intervals (rendered (react ss (Arrives (Start rnd)))) = [nextHandle (rendered ss)]
          \<and> timerRef (rendered (react ss (Arrives (Start rnd))))
              = Some (nextHandle (rendered ss)))
      \<and> (enabledS ss (Arrives (NextLevel rnd)) \<longrightarrow>
            intervals (rendered ss) = [] \<and> pending ss = []
          \<and> intervals (rendered (react ss (Arrives (NextLevel rnd))))
              = [nextHandle (rendered ss)]
          \<and> timerRef (rendered (react ss (Arrives (NextLevel rnd))))
              = Some (nextHandle (rendered ss)))
      \<and> (pending ss = [] \<and> enabledS ss (Arrives (Tick h))
          \<and> timeLeft (gameState (rendered ss)) \<le> 1 \<longrightarrow>
            intervals (rendered (react (react ss (Arrives (Tick h))) Renders)) = []
          \<and> gameOver (gameState (rendered (react (react ss (Arrives (Tick h))) Renders))))"
  proof
    assume r: "reachableS ss"
    then have i: "sessionInv ss" by (rule reachableS_inv)
    then have t: "timerInv (rendered ss)" by (simp add: sessionInv_def)
    have c1: "length (intervals (rendered ss)) \<le> 1" using t by (auto simp: timerInv_iff)
    have c2: "\<forall>h \<in> set (intervals (rendered ss)).
            active (rendered ss) \<and> timerRef (rendered ss) = Some h"
      using t by (auto simp: timerInv_iff)
    have c3: "\<not> active (rendered ss) \<longrightarrow> intervals (rendered ss) = [] \<and> pending ss = []"
      using i t by (auto simp: timerInv_iff sessionInv_def)
    have c4: "enabledS ss (Arrives (Start rnd)) \<longrightarrow>
            intervals (rendered ss) = [] \<and> pending ss = []
          \<and> intervals (rendered (react ss (Arrives (Start rnd)))) = [nextHandle (rendered ss)]
          \<and> timerRef (rendered (react ss (Arrives (Start rnd))))
              = Some (nextHandle (rendered ss))"
      using startGameS_timer[OF i] by simp
    have c5: "enabledS ss (Arrives (NextLevel rnd)) \<longrightarrow>
            intervals (rendered ss) = [] \<and> pending ss = []
          \<and> intervals (rendered (react ss (Arrives (NextLevel rnd))))
              = [nextHandle (rendered ss)]
          \<and> timerRef (rendered (react ss (Arrives (NextLevel rnd))))
              = Some (nextHandle (rendered ss))"
      using startGameS_timer[OF i] by simp
    have c6: "pending ss = [] \<and> enabledS ss (Arrives (Tick h))
          \<and> timeLeft (gameState (rendered ss)) \<le> 1 \<longrightarrow>
            intervals (rendered (react (react ss (Arrives (Tick h))) Renders)) = []
          \<and> gameOver (gameState (rendered (react (react ss (Arrives (Tick h))) Renders)))"
    proof (intro impI, elim conjE)
      assume p: "pending ss = []" and en: "enabledS ss (Arrives (Tick h))"
        and tl: "timeLeft (gameState (rendered ss)) \<le> 1"
      have b: "base ss = gameState (rendered ss)"
        using i p by (simp add: sessionInv_def gameStatePending_def)
      have e: "ss = atRest (rendered ss)" using p b by (rule atRest_eq)
      have ci: "clearInterval (timerRef (rendered ss)) (intervals (rendered ss)) = []"
        using t by (rule clearInterval_timerInv)
      have k: "intervals (intervalTick (rendered ss)) = []"
        "gameOver (gameState (intervalTick (rendered ss)))"
        using tl ci by (simp_all add: intervalTick_def Let_def)
      have "react (react ss (Arrives (Tick h))) Renders
              = afterCommit (atRest (intervalTick (rendered ss)))"
        by (subst e)
           (simp add: intervalFires_def renderQueued_def workInProgress_def atRest_def Let_def)
      then show "intervals (rendered (react (react ss (Arrives (Tick h))) Renders)) = []
          \<and> gameOver (gameState (rendered (react (react ss (Arrives (Tick h))) Renders)))"
        using k afterCommit_no_interval[of "atRest (intervalTick (rendered ss))"]
        by (simp add: afterCommit_def levelCompletionQueued_def gameOverEffect_def Let_def)
    qed
    from c1 c2 c3 c4 c5 c6 show "length (intervals (rendered ss)) \<le> 1
      \<and> (\<forall>h \<in> set (intervals (rendered ss)).
            active (rendered ss) \<and> timerRef (rendered ss) = Some h)
      \<and> (\<not> active (rendered ss) \<longrightarrow> intervals (rendered ss) = [] \<and> pending ss = [])
      \<and> (enabledS ss (Arrives (Start rnd)) \<longrightarrow>
            intervals (rendered ss) = [] \<and> pending ss = []
          \<and> intervals (rendered (react ss (Arrives (Start rnd)))) = [nextHandle (rendered ss)]
          \<and> timerRef (rendered (react ss (Arrives (Start rnd))))
              = Some (nextHandle (rendered ss)))
      \<and> (enabledS ss (Arrives (NextLevel rnd)) \<longrightarrow>
            intervals (rendered ss) = [] \<and> pending ss = []
          \<and> intervals (rendered (react ss (Arrives (NextLevel rnd))))
              = [nextHandle (rendered ss)]
          \<and> timerRef (rendered (react ss (Arrives (NextLevel rnd))))
              = Some (nextHandle (rendered ss)))
      \<and> (pending ss = [] \<and> enabledS ss (Arrives (Tick h))
          \<and> timeLeft (gameState (rendered ss)) \<le> 1 \<longrightarrow>
            intervals (rendered (react (react ss (Arrives (Tick h))) Renders)) = []
          \<and> gameOver (gameState (rendered (react (react ss (Arrives (Tick h))) Renders))))"
      by (simp only: simp_thms)
  qed
  have b: "liveIsCurrent s \<longrightarrow>
        intervals (resetGame s) = []
      \<and> intervals (rendered (resetGameS (atRest s))) = []
      \<and> (timeLeft (gameState s) \<le> 1 \<longrightarrow>
            intervals (intervalTick s) = [] \<and> gameOver (gameState (intervalTick s)))
      \<and> (active s \<and> allGoofysFound (characters s) \<longrightarrow>
            intervals (levelCompletionEffect s) = []
          \<and> intervals (rendered (levelCompletionQueued (atRest s))) = [])
      \<and> (gameOver (gameState s) \<longrightarrow> intervals (gameOverEffect s) = [])"
  proof
    assume "liveIsCurrent s"
    then have c: "clearInterval (timerRef s) (intervals s) = []" by (rule clearInterval_current)
    have d1: "intervals (resetGame s) = []" using c by (simp add: resetGame_def)
    have d2: "intervals (rendered (resetGameS (atRest s))) = []"
      using d1 afterCommit_no_interval[of "atRest (resetGame s)"]
      by (simp add: resetGameS_atRest)
    have d3: "timeLeft (gameState s) \<le> 1 \<longrightarrow>
            intervals (intervalTick s) = [] \<and> gameOver (gameState (intervalTick s))"
      using c by (simp add: intervalTick_def Let_def)
    have d4: "active s \<and> allGoofysFound (characters s) \<longrightarrow>
            intervals (levelCompletionEffect s) = []
          \<and> intervals (rendered (levelCompletionQueued (atRest s))) = []"
      using c by (simp add: levelCompletionEffect_def levelCompletionQueued_def Let_def
            active_def)
    have d5: "gameOver (gameState s) \<longrightarrow> intervals (gameOverEffect s) = []"
      using c by (simp add: gameOverEffect_def)
    from d1 d2 d3 d4 d5 show "intervals (resetGame s) = []
      \<and> intervals (rendered (resetGameS (atRest s))) = []
      \<and> (timeLeft (gameState s) \<le> 1 \<longrightarrow>
            intervals (intervalTick s) = [] \<and> gameOver (gameState (intervalTick s)))
      \<and> (active s \<and> allGoofysFound (characters s) \<longrightarrow>
            intervals (levelCompletionEffect s) = []
          \<and> intervals (rendered (levelCompletionQueued (atRest s))) = [])
      \<and> (gameOver (gameState s) \<longrightarrow> intervals (gameOverEffect s) = [])"
      by (simp only: simp_thms)
  qed
  from a b show ?thesis by (simp only: simp_thms)
qed


lemma run_lastSecond: "run (mount None) (easyStart @ replicate 59 (Tick 1)) = Some lastSecond"
  by code_simp

theorem single_live_interval_witness:
  "reachableS (atRest (mount None))
   \<and> enabledS (atRest (mount None)) (Arrives (Start zeroDraws))
   \<and> intervals (rendered (react (atRest (mount None)) (Arrives (Start zeroDraws)))) = [1]
   \<and> reachableS (atRest easyRound) \<and> active easyRound
   \<and> intervals easyRound = [1] \<and> timerRef easyRound = Some 1
   \<and> reachableS (atRest lastSecond) \<and> enabledS (atRest lastSecond) (Arrives (Tick 1))
   \<and> timeLeft (gameState lastSecond) = 1 \<and> intervals lastSecond = [1]
   \<and> intervals (rendered (react (react (atRest lastSecond) (Arrives (Tick 1))) Renders)) = []
   \<and> gameOver (gameState (rendered (react (react (atRest lastSecond) (Arrives (Tick 1)))
                                        Renders)))
   \<and> liveIsCurrent easyRound \<and> intervals (resetGame easyRound) = []
   \<and> intervals (rendered (resetGameS (atRest easyRound))) = []
   \<and> liveIsCurrent lastSecond \<and> intervals (intervalTick lastSecond) = []
   \<and> gameOver (gameState (intervalTick lastSecond))
   \<and> liveIsCurrent allFoundLive \<and> intervals allFoundLive = [1] \<and> active allFoundLive
   \<and> allGoofysFound (characters allFoundLive)
   \<and> intervals (levelCompletionEffect allFoundLive) = []
   \<and> intervals (rendered (levelCompletionQueued (atRest allFoundLive))) = []
   \<and> liveIsCurrent overLive \<and> intervals overLive = [1] \<and> gameOver (gameState overLive)
   \<and> intervals (gameOverEffect overLive) = []"
proof -
  have r0: "reachableS (atRest (mount None))" by (rule reachableS_mount)
  have r1: "reachableS (atRest easyRound)"
    using run_easyRound by (intro reachable_atRest reachable_run_mount)
  have r2: "reachableS (atRest lastSecond)"
    using run_lastSecond by (intro reachable_atRest reachable_run_mount)
  have e0: "enabledS (atRest (mount None)) (Arrives (Start zeroDraws))"
    "nextHandle (mount None) = 1" by (simp_all add: mount_def)
  have f1: "active easyRound" "intervals easyRound = [1]" "timerRef easyRound = Some 1"
    "liveIsCurrent easyRound"
    by code_simp+
  have f2: "timeLeft (gameState lastSecond) = 1" "intervals lastSecond = [1]"
    "liveIsCurrent lastSecond"
    by code_simp+
  have f3: "liveIsCurrent allFoundLive" "intervals allFoundLive = [1]" "active allFoundLive"
    "allGoofysFound (characters allFoundLive)"
    by code_simp+
  have f4: "liveIsCurrent overLive" "intervals overLive = [1]" "gameOver (gameState overLive)"
    by code_simp+
  from single_live_interval[of "atRest (mount None)" zeroDraws 1 easyRound]
    single_live_interval[of "atRest lastSecond" zeroDraws 1 lastSecond]
    single_live_interval[of "atRest easyRound" zeroDraws 1 allFoundLive]
    single_live_interval[of "atRest easyRound" zeroDraws 1 overLive]
    r0 r1 r2 e0 f1 f2 f3 f4
  show ?thesis by simp
qed

section \<open>A click handled before the tick is rendered\<close>

text \<open>
  Claim C5, at the inputs where the code departs from it. Two targets are found, the
  interval fires, and the last target is clicked before the tick is rendered. The win
  check takes the seconds of the render it runs after, 60, and the score 300 with it:
  the round ends with 59 seconds remaining and the score 900, a bonus of 600 and not of
  ten times the seconds remaining. When the tick that fired is the one of the last
  second, the round ends with no time remaining, which is how a lost round is shown, and
  yet with the level incremented and a time bonus in the score.
\<close>

theorem win_bonus_from_stale_render:
  "outcome twoFoundSteps
     = Some \<lparr>score = 200, timeLeft = 60, gameStarted = True, gameOver = False,
             difficulty = Easy, level = 1\<rparr>
   \<and> outcome winDuringTick
     = Some \<lparr>score = 900, timeLeft = 59, gameStarted = True, gameOver = True,
             difficulty = Easy, level = 2\<rparr>
   \<and> outcome lastSecondSteps
     = Some \<lparr>score = 200, timeLeft = 1, gameStarted = True, gameOver = False,
             difficulty = Easy, level = 1\<rparr>
   \<and> outcome clickAfterTimeout
     = Some \<lparr>score = 310, timeLeft = 0, gameStarted = True, gameOver = True,
             difficulty = Easy, level = 2\<rparr>"
  by code_simp

text \<open>
  Claim C6, at the inputs where the code departs from it. The interval fires and a
  click is handled before the tick is rendered. A click on a target marks it found, and
  once the tick is rendered the score is still 0: the 100 points are lost. With one
  target found and the score at 100, a click on a character that is not a target costs
  nothing: the score is still 100.
\<close>

theorem click_score_lost:
  "outcome easySteps
     = Some \<lparr>score = 0, timeLeft = 60, gameStarted = True, gameOver = False,
             difficulty = Easy, level = 1\<rparr>
   \<and> outcome targetDuringTick
     = Some \<lparr>score = 0, timeLeft = 59, gameStarted = True, gameOver = False,
             difficulty = Easy, level = 1\<rparr>
   \<and> foundTargets targetDuringTick = Some [True, False, False]
   \<and> outcome (easySteps @ [Arrives (Click ''goofy-0'')])
     = Some \<lparr>score = 100, timeLeft = 60, gameStarted = True, gameOver = False,
             difficulty = Easy, level = 1\<rparr>
   \<and> outcome wrongDuringTick
     = Some \<lparr>score = 100, timeLeft = 59, gameStarted = True, gameOver = False,
             difficulty = Easy, level = 1\<rparr>"
  by code_simp

text \<open>
  Claim C7, at the input where the code departs from it. In the last second, with two
  targets found and the score at 200, the interval fires: its update, which times the
  round out, is queued, and the page still shows an active round. A click on the last
  target passes the guard, which reads what the page shows. After the render the round
  is over with no time remaining, and the click that came after the timeout has taken
  the score from 200 to 310 and the level to 2, and 310 is stored. Had the tick been
  rendered first, the click would have changed nothing.
\<close>

theorem click_after_timeout_scores:
  "outcome (lastSecondSteps @ [Arrives (Tick 1)])
     = Some \<lparr>score = 200, timeLeft = 1, gameStarted = True, gameOver = False,
             difficulty = Easy, level = 1\<rparr>
   \<and> map_option pending (runS (atRest (mount None)) (lastSecondSteps @ [Arrives (Tick 1)]))
     = Some [(DefaultLane, TickUpdate)]
   \<and> outcome (lastSecondSteps @ [Arrives (Tick 1), Arrives (Click ''goofy-2'')])
     = Some \<lparr>score = 300, timeLeft = 1, gameStarted = True, gameOver = False,
             difficulty = Easy, level = 1\<rparr>
   \<and> outcome clickAfterTimeout
     = Some \<lparr>score = 310, timeLeft = 0, gameStarted = True, gameOver = True,
             difficulty = Easy, level = 2\<rparr>
   \<and> storedAfter clickAfterTimeout = Some (Some ''310'')
   \<and> outcome (lastSecondSteps @ [Arrives (Tick 1), Renders, Arrives (Click ''goofy-2'')])
     = Some \<lparr>score = 200, timeLeft = 0, gameStarted = True, gameOver = True,
             difficulty = Easy, level = 1\<rparr>
   \<and> storedAfter (lastSecondSteps @ [Arrives (Tick 1), Renders, Arrives (Click ''goofy-2'')])
     = Some None"
  by code_simp

text \<open>What does hold of every reachable session: the score is never negative.\<close>

lemma session_score_nonneg:
  "reachableS ss \<Longrightarrow> 0 \<le> score (gameState (rendered ss)) \<and> 0 \<le> score (base ss)"
  using reachableS_inv[of ss] by (simp add: sessionInv_def roundInv_def)

text \<open>
  Once the over flag has been rendered no interval is live, nothing is queued, and a
  click changes nothing.
\<close>

lemma session_over_rendered:
  assumes "reachableS ss" "gameOver (gameState (rendered ss))"
  shows "intervals (rendered ss) = []" "pending ss = []" "react ss (Arrives (Click k)) = ss"
proof -
  have i: "sessionInv ss" using assms(1) by (rule reachableS_inv)
  show "intervals (rendered ss) = []"
    using i assms(2) by (auto simp: sessionInv_def timerInv_iff active_def)
  show "pending ss = []" using i assms(2) by (auto simp: sessionInv_def active_def)
  show "react ss (Arrives (Click k)) = ss"
    using assms(2) by (simp add: handleCharacterClickS_def)
qed

end
